theory Spec2Isabelle
  imports
    Main
    "HOL-Library.Word"
    "HOL-Library.Char_ord"
    "HOL-Library.List_Lexorder"
    "HOL-Library.Multiset"
begin

section \<open>Go library functions the engine calls\<close>

text \<open>
  Go strings and byte slices are byte sequences, as \<open>string\<close> (a list of 8-bit
  characters) is; both are modelled by it.
  The functions below are the library calls of the modelled code, restricted to the
  way the code calls them (one-byte separators, base 10).
\<close>

type_synonym bytes = string

text \<open>\<open>strings.Split(s, sep)\<close> for a one-byte separator: always at least one part.\<close>

fun Split :: "char \<Rightarrow> string \<Rightarrow> string list" where
  "Split c [] = [[]]"
| "Split c (x # xs) =
     (if x = c then [] # Split c xs
      else (case Split c xs of y # ys \<Rightarrow> (x # y) # ys | [] \<Rightarrow> [[x]]))"

text \<open>\<open>strings.SplitN(s, sep, 2)\<close>: cut at the first separator only.\<close>

definition SplitN2 :: "char \<Rightarrow> string \<Rightarrow> string list" where
  "SplitN2 c s =
     (if c \<in> set s then [takeWhile (\<lambda>x. x \<noteq> c) s, tl (dropWhile (\<lambda>x. x \<noteq> c) s)]
      else [s])"

definition is_digit :: "char \<Rightarrow> bool" where
  "is_digit c \<longleftrightarrow> 48 \<le> (of_char c :: nat) \<and> (of_char c :: nat) \<le> 57"

definition digit_val :: "char \<Rightarrow> nat" where
  "digit_val c = of_char c - 48"

definition decimal_value :: "string \<Rightarrow> nat" where
  "decimal_value s = foldl (\<lambda>n c. 10 * n + digit_val c) 0 s"

text \<open>
  \<open>strconv.ParseUint(s, 10, bitSize)\<close>: \<open>None\<close> stands for a non-nil error
  (empty input, a byte that is not a decimal digit, or a value that does not fit
  \<open>bitSize\<close> bits). The callers only test the error for nil.
\<close>

definition ParseUint :: "string \<Rightarrow> nat \<Rightarrow> nat option" where
  "ParseUint s bitSize =
     (if s = [] then None
      else if \<not> list_all is_digit s then None
      else if decimal_value s < 2 ^ bitSize then Some (decimal_value s)
      else None)"


text \<open>
  \<open>strings.TrimSpace\<close>: white space is removed from both ends. White space is
  Unicode's White_Space property, here by the UTF-8 encoding of each code point:
  U+0009 to U+000D, U+0020, U+0085, U+00A0, U+1680, U+2000 to U+200A, U+2028, U+2029,
  U+202F, U+205F and U+3000.
\<close>

definition space_tokens :: "string list" where
  "space_tokens =
     [[CHR 0x09], [CHR 0x0A], [CHR 0x0B], [CHR 0x0C], [CHR 0x0D], [CHR 0x20],
      [CHR 0xC2, CHR 0x85], [CHR 0xC2, CHR 0xA0], [CHR 0xE1, CHR 0x9A, CHR 0x80],
      [CHR 0xE2, CHR 0x80, CHR 0x80], [CHR 0xE2, CHR 0x80, CHR 0x81],
      [CHR 0xE2, CHR 0x80, CHR 0x82], [CHR 0xE2, CHR 0x80, CHR 0x83],
      [CHR 0xE2, CHR 0x80, CHR 0x84], [CHR 0xE2, CHR 0x80, CHR 0x85],
      [CHR 0xE2, CHR 0x80, CHR 0x86], [CHR 0xE2, CHR 0x80, CHR 0x87],
      [CHR 0xE2, CHR 0x80, CHR 0x88], [CHR 0xE2, CHR 0x80, CHR 0x89],
      [CHR 0xE2, CHR 0x80, CHR 0x8A], [CHR 0xE2, CHR 0x80, CHR 0xA8],
      [CHR 0xE2, CHR 0x80, CHR 0xA9], [CHR 0xE2, CHR 0x80, CHR 0xAF],
      [CHR 0xE2, CHR 0x81, CHR 0x9F], [CHR 0xE3, CHR 0x80, CHR 0x80]]"

fun strip_prefix_of :: "string list \<Rightarrow> string \<Rightarrow> string option" where
  "strip_prefix_of [] s = None"
| "strip_prefix_of (t # ts) s =
     (if take (length t) s = t then Some (drop (length t) s) else strip_prefix_of ts s)"

fun trim_left :: "string list \<Rightarrow> nat \<Rightarrow> string \<Rightarrow> string" where
  "trim_left toks 0 s = s"
| "trim_left toks (Suc n) s =
     (case strip_prefix_of toks s of None \<Rightarrow> s | Some s' \<Rightarrow> trim_left toks n s')"

definition TrimSpace :: "string \<Rightarrow> string" where
  "TrimSpace s =
     (let l = trim_left space_tokens (length s) s
      in rev (trim_left (map rev space_tokens) (length l) (rev l)))"

text \<open>The ASCII letters and the change of case of one ASCII byte.\<close>

definition upper_letters :: string where
  "upper_letters = ''ABCDEFGHIJKLMNOPQRSTUVWXYZ''"

definition lower_letters :: string where
  "lower_letters = ''abcdefghijklmnopqrstuvwxyz''"

definition is_upper :: "char \<Rightarrow> bool" where
  "is_upper c \<longleftrightarrow> c \<in> set upper_letters"

definition is_lower :: "char \<Rightarrow> bool" where
  "is_lower c \<longleftrightarrow> c \<in> set lower_letters"

definition to_lower :: "char \<Rightarrow> char" where
  "to_lower c = (case map_of (zip upper_letters lower_letters) c of Some l \<Rightarrow> l | None \<Rightarrow> c)"

definition to_upper :: "char \<Rightarrow> char" where
  "to_upper c = (case map_of (zip lower_letters upper_letters) c of Some u \<Rightarrow> u | None \<Rightarrow> c)"

text \<open>
  \<open>strings.ToLower\<close>. A string of ASCII bytes only takes the function's fast path,
  which adds \<open>'a' - 'A'\<close> to every byte from \<open>'A'\<close> to \<open>'Z'\<close>. Any other string goes
  to \<open>strings.Map(unicode.ToLower, s)\<close>, which decodes the string as UTF-8, maps every
  rune through the Unicode tables and writes U+FFFD for invalid bytes; that library
  function is the argument \<open>unicode_lower\<close>.
\<close>

definition isASCII :: "string \<Rightarrow> bool" where
  "isASCII s \<longleftrightarrow> list_all (\<lambda>c. of_char c < (128 :: nat)) s"

definition ToLower :: "(string \<Rightarrow> string) \<Rightarrow> string \<Rightarrow> string" where
  "ToLower unicode_lower s = (if isASCII s then map to_lower s else unicode_lower s)"

text \<open>
  \<open>http.CanonicalHeaderKey\<close>: a key made of header-token bytes only gets an upper-case
  letter first and after every hyphen and lower-case letters elsewhere; any other key is
  returned unchanged.
\<close>

definition validHeaderFieldByte :: "char \<Rightarrow> bool" where
  "validHeaderFieldByte c \<longleftrightarrow>
     is_digit c \<or> is_upper c \<or> is_lower c \<or> c \<in> set ''!#$%&*+-.^_`|~'' \<or> c = CHR 0x27"

fun canonicalize :: "bool \<Rightarrow> string \<Rightarrow> string" where
  "canonicalize upper [] = []"
| "canonicalize upper (c # cs) =
     (let c' = (if upper then to_upper c else to_lower c)
      in c' # canonicalize (c' = CHR ''-'') cs)"

definition CanonicalHeaderKey :: "string \<Rightarrow> string" where
  "CanonicalHeaderKey s = (if list_all validHeaderFieldByte s then canonicalize True s else s)"

section \<open>Errors\<close>

text \<open>The Go errors of the engine, one constructor for each place that creates one.\<close>

datatype error =
    EmptyAkamaiFingerprint
  | InvalidJA3Format nat
  | InvalidTLSVersion
  | DialError
  | WritePrefaceError
  | ReadRequestBodyError
  | FlushFramesError
  | SetReadDeadlineError
  | ReadResponseError
  | DecodeHeadersError
  | ResponseBodyExceedsLimit nat
  | GoAwayError nat
  | RstStreamError nat
  | TransportError
  | InvalidRedirectURL
  | NewRequestError
  | TooManyRedirects int
  | BodyReadError

section \<open>The Akamai HTTP/2 fingerprint (internal/http2/akamai.go, settings.go)\<close>

record Setting =
  ID :: "16 word"
  Val :: "32 word"

record ParsedAkamai =
  Settings :: "Setting list"
  WindowUpdateIncrement :: "32 word"
  PriorityFrames :: string
  HeaderOrder :: "string list"

text \<open>
  The loop over the \<open>;\<close>-separated pairs of part 1. A pair that has no colon, or whose id
  or value does not parse, is skipped (\<open>continue\<close>); the others are appended in order.
\<close>

fun parseSettings :: "string list \<Rightarrow> Setting list \<Rightarrow> Setting list" where
  "parseSettings [] acc = acc"
| "parseSettings (pair # pairs) acc =
     (let kv = SplitN2 CHR '':'' pair in
      if length kv \<noteq> 2 then parseSettings pairs acc
      else (case ParseUint (kv ! 0) 16 of
              None \<Rightarrow> parseSettings pairs acc
            | Some ident \<Rightarrow>
               (case ParseUint (kv ! 1) 32 of
                  None \<Rightarrow> parseSettings pairs acc
                | Some val \<Rightarrow>
                    parseSettings pairs (acc @ [\<lparr>ID = of_nat ident, Val = of_nat val\<rparr>]))))"

definition letterMap :: "string \<rightharpoonup> string" where
  "letterMap =
     [''m'' \<mapsto> '':method'', ''a'' \<mapsto> '':authority'', ''s'' \<mapsto> '':scheme'', ''p'' \<mapsto> '':path'']"

fun parseHeaderOrder :: "string list \<Rightarrow> string list \<Rightarrow> string list" where
  "parseHeaderOrder [] acc = acc"
| "parseHeaderOrder (letter # letters) acc =
     (case letterMap (TrimSpace letter) of
        Some header \<Rightarrow> parseHeaderOrder letters (acc @ [header])
      | None \<Rightarrow> parseHeaderOrder letters acc)"

text \<open>
  \<open>ParseAkamaiText\<close>. \<open>Split\<close> returns at least one part, so \<open>parts ! 0\<close> is in range,
  as \<open>parts[0]\<close> is in the source. The only error is the one for the empty text.
\<close>

definition ParseAkamaiText :: "string \<Rightarrow> error + ParsedAkamai" where
  "ParseAkamaiText akamai =
     (if akamai = [] then Inl EmptyAkamaiFingerprint
      else
        let parts = Split CHR ''|'' akamai;
            settings =
              (if parts ! 0 \<noteq> [] then parseSettings (Split CHR '';'' (parts ! 0)) [] else []);
            increment =
              (if length parts > 1 \<and> parts ! 1 \<noteq> []
               then (case ParseUint (parts ! 1) 32 of Some val \<Rightarrow> of_nat val | None \<Rightarrow> 0)
               else 0);
            priority = (if length parts > 2 then parts ! 2 else []);
            order =
              (if length parts > 3 \<and> parts ! 3 \<noteq> []
               then parseHeaderOrder (Split CHR '','' (parts ! 3)) [] else [])
        in Inr \<lparr>Settings = settings, WindowUpdateIncrement = increment,
                 PriorityFrames = priority, HeaderOrder = order\<rparr>)"


section \<open>HTTP values\<close>

text \<open>
  \<open>http.Header\<close> is a Go map from canonical names to value lists. A Go map has no
  order: where the code ranges over one, the order of the visit is an argument of the
  model (\<open>valid_range\<close>: every key once, in any order).
\<close>

type_synonym header = "string \<rightharpoonup> string list"

definition valid_range :: "header \<Rightarrow> string list \<Rightarrow> bool" where
  "valid_range h ks \<longleftrightarrow> distinct ks \<and> set ks = dom h"

definition Header_Set :: "header \<Rightarrow> string \<Rightarrow> string \<Rightarrow> header" where
  "Header_Set h key val = h(CanonicalHeaderKey key \<mapsto> [val])"

definition Header_Add :: "header \<Rightarrow> string \<Rightarrow> string \<Rightarrow> header" where
  "Header_Add h key val =
     h(CanonicalHeaderKey key \<mapsto>
        (case h (CanonicalHeaderKey key) of None \<Rightarrow> [] | Some vs \<Rightarrow> vs) @ [val])"

definition Header_Get :: "header \<Rightarrow> string \<Rightarrow> string" where
  "Header_Get h key =
     (case h (CanonicalHeaderKey key) of None \<Rightarrow> [] | Some [] \<Rightarrow> [] | Some (v # _) \<Rightarrow> v)"

text \<open>
  A body that is read: the successive results of \<open>Read\<close>, each a chunk of bytes with
  nil, \<open>io.EOF\<close> or another error; past the last one \<open>Read\<close> returns \<open>(0, io.EOF)\<close>.
\<close>

datatype read_status = ReadNil | ReadEOF | ReadFailed

type_synonym body_reader = "(bytes \<times> read_status) list"

record URL =
  Scheme :: string
  Host :: string
  RequestURI :: string

record 'u Request =
  Method :: string
  url :: 'u
  Header :: header
  Body :: "body_reader option"
  ContentLength :: int

record Response =
  StatusCode :: int
  Status :: string
  Proto :: string
  ProtoMajor :: int
  RespHeader :: header
  RespBody :: body_reader
  RespContentLength :: int

text \<open>\<open>http.StatusText\<close>: the reason phrase of a status code, empty for an unknown code.\<close>

definition status_texts :: "(int \<times> string) list" where
  "status_texts =
     [(100, ''Continue''), (101, ''Switching Protocols''), (102, ''Processing''),
      (103, ''Early Hints''), (200, ''OK''), (201, ''Created''), (202, ''Accepted''),
      (203, ''Non-Authoritative Information''), (204, ''No Content''),
      (205, ''Reset Content''), (206, ''Partial Content''), (207, ''Multi-Status''),
      (208, ''Already Reported''), (226, ''IM Used''), (300, ''Multiple Choices''),
      (301, ''Moved Permanently''), (302, ''Found''), (303, ''See Other''),
      (304, ''Not Modified''), (305, ''Use Proxy''), (307, ''Temporary Redirect''),
      (308, ''Permanent Redirect''), (400, ''Bad Request''), (401, ''Unauthorized''),
      (402, ''Payment Required''), (403, ''Forbidden''), (404, ''Not Found''),
      (405, ''Method Not Allowed''), (406, ''Not Acceptable''),
      (407, ''Proxy Authentication Required''), (408, ''Request Timeout''),
      (409, ''Conflict''), (410, ''Gone''), (411, ''Length Required''),
      (412, ''Precondition Failed''), (413, ''Request Entity Too Large''),
      (414, ''Request URI Too Long''), (415, ''Unsupported Media Type''),
      (416, ''Requested Range Not Satisfiable''), (417, ''Expectation Failed''),
      (418, ''I'' @ [CHR 0x27] @ ''m a teapot''), (421, ''Misdirected Request''),
      (422, ''Unprocessable Entity''), (423, ''Locked''), (424, ''Failed Dependency''),
      (425, ''Too Early''), (426, ''Upgrade Required''), (428, ''Precondition Required''),
      (429, ''Too Many Requests''), (431, ''Request Header Fields Too Large''),
      (451, ''Unavailable For Legal Reasons''), (500, ''Internal Server Error''),
      (501, ''Not Implemented''), (502, ''Bad Gateway''), (503, ''Service Unavailable''),
      (504, ''Gateway Timeout''), (505, ''HTTP Version Not Supported''),
      (506, ''Variant Also Negotiates''), (507, ''Insufficient Storage''),
      (508, ''Loop Detected''), (510, ''Not Extended''),
      (511, ''Network Authentication Required'')]"

definition StatusText :: "int \<Rightarrow> string" where
  "StatusText code = (case map_of status_texts code of Some t \<Rightarrow> t | None \<Rightarrow> [])"

text \<open>
  \<open>strconv.Atoi\<close> on a 64-bit platform: the value and whether the error is non-nil.
  A syntax error gives 0; a value out of range gives the nearest bound.
\<close>

definition Atoi :: "string \<Rightarrow> int \<times> bool" where
  "Atoi s =
     (let neg = (s \<noteq> [] \<and> hd s = CHR ''-'');
          ds = (if s \<noteq> [] \<and> (hd s = CHR ''-'' \<or> hd s = CHR ''+'') then tl s else s)
      in if ds = [] \<or> \<not> list_all is_digit ds then (0, True)
         else if neg then
           (if decimal_value ds \<le> 2 ^ 63 then (- int (decimal_value ds), False)
            else (- (2 ^ 63), True))
         else
           (if decimal_value ds < 2 ^ 63 then (int (decimal_value ds), False)
            else (2 ^ 63 - 1, True)))"

section \<open>The custom HTTP/2 transport (internal/http2/transport.go)\<close>

definition maxResponseBodySize :: nat where
  "maxResponseBodySize = 100 * 1024 * 1024"

type_synonym HeaderField = "string \<times> string"

record http2_Setting =
  h2_ID :: "16 word"
  h2_Val :: "32 word"

text \<open>
  What the code writes through the \<open>http2.Framer\<close>, one constructor for each method it
  calls. The frames are kept as values: their serialisation to bytes and the HPACK
  coding of a header block belong to the library, and the block is kept as the
  sequence of fields given to \<open>enc.WriteField\<close>.
\<close>

datatype frame_write =
    WriteSettings "http2_Setting list"
  | WriteWindowUpdate nat "32 word"
  | WriteHeaders nat "HeaderField list" bool bool
  | WriteData nat bool bytes
  | WriteSettingsAck
  | WritePing bool bytes

record CustomH2Transport =
  Fingerprint :: ParsedAkamai
  HeaderOrder_keys :: "string list"

definition pseudoHeaders :: "URL Request \<Rightarrow> string \<rightharpoonup> string" where
  "pseudoHeaders req =
     (let path = (if RequestURI (url req) = [] then ''/'' else RequestURI (url req))
      in ['':method'' \<mapsto> Method req, '':authority'' \<mapsto> Host (url req),
          '':scheme'' \<mapsto> Scheme (url req), '':path'' \<mapsto> path])"

fun writePseudo :: "(string \<rightharpoonup> string) \<Rightarrow> string list \<Rightarrow> HeaderField list \<Rightarrow> HeaderField list" where
  "writePseudo ph [] enc = enc"
| "writePseudo ph (h # hs) enc =
     (case ph h of
        Some val \<Rightarrow> writePseudo ph hs (enc @ [(h, val)])
      | None \<Rightarrow> writePseudo ph hs enc)"

fun writeValues :: "string \<Rightarrow> string list \<Rightarrow> HeaderField list \<Rightarrow> HeaderField list" where
  "writeValues lk [] enc = enc"
| "writeValues lk (val # vals) enc = writeValues lk vals (enc @ [(lk, val)])"

text \<open>The loop over \<open>t.HeaderOrder\<close>: the encoder's fields and the \<open>written\<close> set.\<close>

fun writeOrdered ::
  "(string \<Rightarrow> string) \<Rightarrow> header \<Rightarrow> string list \<Rightarrow> HeaderField list \<times> string set \<Rightarrow>
   HeaderField list \<times> string set" where
  "writeOrdered unicode_lower hdr [] (enc, written) = (enc, written)"
| "writeOrdered unicode_lower hdr (key # keys) (enc, written) =
     (let canonical = CanonicalHeaderKey key in
      case hdr canonical of
        Some vals \<Rightarrow>
          writeOrdered unicode_lower hdr keys
            (writeValues (ToLower unicode_lower key) vals enc, insert canonical written)
      | None \<Rightarrow> writeOrdered unicode_lower hdr keys (enc, written))"

text \<open>
  \<open>for key, vals := range req.Header\<close>, skipping the keys of \<open>written\<close>. The third
  argument is the order in which the range visits the keys.
\<close>

fun writeRemaining ::
  "(string \<Rightarrow> string) \<Rightarrow> header \<Rightarrow> string set \<Rightarrow> string list \<Rightarrow> HeaderField list \<Rightarrow>
   HeaderField list" where
  "writeRemaining unicode_lower hdr written [] enc = enc"
| "writeRemaining unicode_lower hdr written (key # keys) enc =
     (if key \<in> written then writeRemaining unicode_lower hdr written keys enc
      else case hdr key of
             Some vals \<Rightarrow>
               writeRemaining unicode_lower hdr written keys
                 (writeValues (ToLower unicode_lower key) vals enc)
           | None \<Rightarrow> writeRemaining unicode_lower hdr written keys enc)"

definition encodeHeaders ::
  "(string \<Rightarrow> string) \<Rightarrow> CustomH2Transport \<Rightarrow> URL Request \<Rightarrow> string list \<Rightarrow> HeaderField list" where
  "encodeHeaders unicode_lower t req range_order =
     (let order =
            (if HeaderOrder (Fingerprint t) = []
             then ['':method'', '':authority'', '':scheme'', '':path'']
             else HeaderOrder (Fingerprint t));
          enc = writePseudo (pseudoHeaders req) order []
      in if HeaderOrder_keys t \<noteq> [] then
           (case writeOrdered unicode_lower (Header req) (HeaderOrder_keys t) (enc, {}) of
              (enc', written) \<Rightarrow>
                writeRemaining unicode_lower (Header req) written range_order enc')
         else writeRemaining unicode_lower (Header req) {} range_order enc)"

text \<open>The loop that sends the request body as DATA frames on stream 1.\<close>

fun writeBody :: "body_reader \<Rightarrow> frame_write list \<Rightarrow> error + frame_write list" where
  "writeBody [] buf = Inr (buf @ [WriteData 1 True []])"
| "writeBody ((d, readErr) # reads) buf =
     (if d \<noteq> [] then
        (if readErr = ReadEOF then Inr (buf @ [WriteData 1 True d])
         else if readErr = ReadFailed then Inl ReadRequestBodyError
         else writeBody reads (buf @ [WriteData 1 False d]))
      else
        (case readErr of
           ReadNil \<Rightarrow> writeBody reads buf
         | ReadEOF \<Rightarrow> Inr (buf @ [WriteData 1 True []])
         | ReadFailed \<Rightarrow> Inl ReadRequestBodyError))"

text \<open>
  \<open>settings := make([]http2.Setting, len(...))\<close> filled by index in the loop over
  the fingerprint's settings.
\<close>

definition copySettings :: "Setting list \<Rightarrow> http2_Setting list" where
  "copySettings ss =
     fold (\<lambda>(i, s) settings. settings[i := \<lparr>h2_ID = ID s, h2_Val = Val s\<rparr>])
       (enumerate 0 ss) (replicate (length ss) \<lparr>h2_ID = 0, h2_Val = 0\<rparr>)"

text \<open>
  The frames \<open>RoundTrip\<close> puts into its write buffer before the flush: SETTINGS with
  the fingerprint's parameters, WINDOW_UPDATE when the increment is positive, HEADERS on
  stream 1, and the body. The buffer is in memory: a write of a frame into it is taken
  to succeed, and the only error here is a failed read of the request body.
\<close>

definition bufferFrames ::
  "(string \<Rightarrow> string) \<Rightarrow> CustomH2Transport \<Rightarrow> URL Request \<Rightarrow> string list \<Rightarrow>
   error + frame_write list" where
  "bufferFrames unicode_lower t req range_order =
     (let settings = copySettings (Settings (Fingerprint t));
          buf1 = [WriteSettings settings];
          buf2 =
            (if WindowUpdateIncrement (Fingerprint t) > 0
             then buf1 @ [WriteWindowUpdate 0 (WindowUpdateIncrement (Fingerprint t))]
             else buf1);
          headerBlock = encodeHeaders unicode_lower t req range_order;
          hasBody = (Body req \<noteq> None \<and> ContentLength req \<noteq> 0);
          buf3 = buf2 @ [WriteHeaders 1 headerBlock (\<not> hasBody) True]
      in if hasBody then
           (case Body req of Some reads \<Rightarrow> writeBody reads buf3 | None \<Rightarrow> Inr buf3)
         else Inr buf3)"


text \<open>
  What \<open>fr.ReadFrame\<close> returns to the read loop. A HEADERS frame carries the result
  of \<open>dec.DecodeFull\<close> on its block (\<open>None\<close>: the block does not decode). The frames
  of a connection are a list; past its end \<open>ReadFrame\<close> returns an error (end of
  stream, a malformed frame or the read deadline).
\<close>

datatype Frame =
    HeadersFrame nat "HeaderField list option" bool
  | DataFrame nat bytes bool
  | SettingsFrame bool
  | PingFrame bool bytes
  | WindowUpdateFrame
  | GoAwayFrame nat nat
  | RSTStreamFrame nat nat
  | OtherFrame

record read_state =
  st_resp :: Response
  bodyBuf :: bytes
  headersReceived :: bool
  replies :: "frame_write list"

text \<open>The loop over the decoded fields of a HEADERS frame.\<close>

fun applyFields :: "HeaderField list \<Rightarrow> Response \<Rightarrow> Response" where
  "applyFields [] r = r"
| "applyFields ((name, val) # hfs) r =
     (if name = '':status'' then
        (let code = fst (Atoi val)
         in applyFields hfs (r\<lparr>StatusCode := code, Status := val @ '' '' @ StatusText code\<rparr>))
      else applyFields hfs (r\<lparr>RespHeader := Header_Add (RespHeader r) name val\<rparr>))"

definition finish :: "read_state \<Rightarrow> bool \<Rightarrow> (error + Response) \<times> frame_write list" where
  "finish st setLength =
     (Inr ((st_resp st)\<lparr>RespBody := [(bodyBuf st, ReadEOF)],
                     RespContentLength :=
                       (if setLength then int (length (bodyBuf st))
                        else RespContentLength (st_resp st))\<rparr>),
      replies st)"

fun readLoop :: "nat \<Rightarrow> Frame list \<Rightarrow> read_state \<Rightarrow> (error + Response) \<times> frame_write list" where
  "readLoop streamID [] st =
     (if headersReceived st then finish st True else (Inl ReadResponseError, replies st))"
| "readLoop streamID (HeadersFrame sid block endStream # fs) st =
     (if sid \<noteq> streamID then readLoop streamID fs st
      else case block of
             None \<Rightarrow> (Inl DecodeHeadersError, replies st)
           | Some headers \<Rightarrow>
              (let st' = st\<lparr>st_resp := applyFields headers (st_resp st), headersReceived := True\<rparr>
               in if endStream then finish st' False else readLoop streamID fs st'))"
| "readLoop streamID (DataFrame sid d endStream # fs) st =
     (if sid \<noteq> streamID then readLoop streamID fs st
      else if length (bodyBuf st) + length d > maxResponseBodySize
        then (Inl (ResponseBodyExceedsLimit maxResponseBodySize), replies st)
      else
        (let st' = st\<lparr>bodyBuf := bodyBuf st @ d,
                       replies :=
                         (if length d > 0
                          then replies st @ [WriteWindowUpdate 0 (of_nat (length d)),
                                             WriteWindowUpdate streamID (of_nat (length d))]
                          else replies st)\<rparr>
         in if endStream then finish st' True else readLoop streamID fs st'))"
| "readLoop streamID (SettingsFrame isAck # fs) st =
     readLoop streamID fs
       (if \<not> isAck then st\<lparr>replies := replies st @ [WriteSettingsAck]\<rparr> else st)"
| "readLoop streamID (PingFrame isAck d # fs) st =
     readLoop streamID fs
       (if \<not> isAck then st\<lparr>replies := replies st @ [WritePing True d]\<rparr> else st)"
| "readLoop streamID (WindowUpdateFrame # fs) st = readLoop streamID fs st"
| "readLoop streamID (GoAwayFrame errCode lastStreamID # fs) st =
     (if headersReceived st then finish st True
      else if errCode = 0 \<and> lastStreamID \<ge> streamID then readLoop streamID fs st
      else (Inl (GoAwayError errCode), replies st))"
| "readLoop streamID (RSTStreamFrame sid errCode # fs) st =
     (if sid = streamID then
        (if headersReceived st then finish st True
         else (Inl (RstStreamError errCode), replies st))
      else readLoop streamID fs st)"
| "readLoop streamID (OtherFrame # fs) st = readLoop streamID fs st"

definition initial_read_state :: read_state where
  "initial_read_state =
     \<lparr>st_resp = \<lparr>StatusCode = 0, Status = [], Proto = ''HTTP/2.0'', ProtoMajor = 2,
              RespHeader = Map.empty, RespBody = [], RespContentLength = 0\<rparr>,
      bodyBuf = [], headersReceived = False, replies = []\<rparr>"

definition readResponse :: "Frame list \<Rightarrow> nat \<Rightarrow> (error + Response) \<times> frame_write list" where
  "readResponse frames streamID = readLoop streamID frames initial_read_state"

text \<open>
  The connection \<open>RoundTrip\<close> works on: whether the dial, the write of the preface and
  the flush succeed, and the frames the server sends. \<open>RoundTrip\<close> returns its result
  and what reached the connection, in order.
\<close>

record conn =
  dial_ok :: bool
  preface_ok :: bool
  flush_ok :: bool
  deadline_ok :: bool
  server_frames :: "Frame list"

datatype wire = Preface | Sent frame_write

definition RoundTrip ::
  "(string \<Rightarrow> string) \<Rightarrow> CustomH2Transport \<Rightarrow> URL Request \<Rightarrow> string list \<Rightarrow> conn \<Rightarrow>
   (error + Response) \<times> wire list" where
  "RoundTrip unicode_lower t req range_order c =
     (if \<not> dial_ok c then (Inl DialError, [])
      else if \<not> preface_ok c then (Inl WritePrefaceError, [])
      else case bufferFrames unicode_lower t req range_order of
             Inl e \<Rightarrow> (Inl e, [Preface])
           | Inr buf \<Rightarrow>
              (if \<not> flush_ok c then (Inl FlushFramesError, [Preface])
               else if \<not> deadline_ok c
                 then (Inl SetReadDeadlineError, Preface # map Sent buf)
               else case readResponse (server_frames c) 1 of
                      (r, acks) \<Rightarrow> (r, Preface # map Sent buf @ map Sent acks)))"


section \<open>Request and TLS configuration (internal/models)\<close>

text \<open>
  The records of the request configuration. A field whose Go name is already a field of
  another record here carries a prefix.
\<close>

record KeyValuePair =
  PairID :: string
  Key :: string
  Value :: string
  Enabled :: bool
  Note :: string

record FormDataPair = KeyValuePair +
  Type :: string
  FilePath :: string

record BasicAuth =
  Username :: string
  Password :: string

record ApiKeyAuth =
  ApiKeyName :: string
  ApiKeyValue :: string
  AddTo :: string

record AuthConfig =
  AuthType :: string
  Bearer :: string
  Basic :: "BasicAuth option"
  ApiKey :: "ApiKeyAuth option"

record RequestConfig =
  cfg_Method :: string
  cfg_URL :: string
  Params :: "KeyValuePair list"
  Headers :: "KeyValuePair list"
  Cookies :: "KeyValuePair list"
  cfg_Body :: string
  BodyType :: string
  FormData :: "FormDataPair list"
  Auth :: AuthConfig
  FollowRedirects :: bool
  MaxRedirects :: int

record TlsConfig =
  Preset :: string
  CustomJA3 :: string
  CustomJA4 :: string
  CustomAkamai :: string

section \<open>Choosing the transport (Client.buildTransport)\<close>

text \<open>
  The standard transports (\<open>http2.Transport\<close> first, \<open>http.Transport\<close> as fallback)
  are library code; the model keeps only which transport is chosen.
\<close>

datatype Transport = CustomH2 CustomH2Transport | H2Fallback

fun headerOrderLoop :: "KeyValuePair list \<Rightarrow> string list \<Rightarrow> string list" where
  "headerOrderLoop [] headerOrder = headerOrder"
| "headerOrderLoop (h # hs) headerOrder =
     (if Enabled h \<and> Key h \<noteq> [] then headerOrderLoop hs (headerOrder @ [Key h])
      else headerOrderLoop hs headerOrder)"

definition buildTransport :: "TlsConfig option \<Rightarrow> RequestConfig option \<Rightarrow> Transport" where
  "buildTransport tlsConfig config =
     (case tlsConfig of
        None \<Rightarrow> H2Fallback
      | Some tc \<Rightarrow>
          if Preset tc = ''custom'' \<and> CustomAkamai tc \<noteq> [] then
            (case ParseAkamaiText (CustomAkamai tc) of
               Inr parsed \<Rightarrow>
                 CustomH2 \<lparr>Fingerprint = parsed,
                           HeaderOrder_keys =
                             (case config of
                                None \<Rightarrow> []
                              | Some cfg \<Rightarrow> headerOrderLoop (Headers cfg) [])\<rparr>
             | Inl err \<Rightarrow> H2Fallback)
          else H2Fallback)"

section \<open>Assembling the request (buildRequest and its helpers)\<close>

text \<open>
  \<open>url.Values\<close> is a Go map from keys to value lists. \<open>Set\<close> replaces the values of a
  key; \<open>Encode\<close> collects the keys by ranging over the map (in the order given as
  \<open>range_order\<close>), sorts them and writes \<open>key=value\<close> pairs joined by \<open>&\<close>, each
  side escaped by \<open>url.QueryEscape\<close>.
\<close>

type_synonym Values = "string \<rightharpoonup> string list"

definition Values_Set :: "Values \<Rightarrow> string \<Rightarrow> string \<Rightarrow> Values" where
  "Values_Set v key val = v(key \<mapsto> [val])"

definition unreserved :: "char \<Rightarrow> bool" where
  "unreserved c \<longleftrightarrow> is_digit c \<or> is_upper c \<or> is_lower c \<or> c \<in> set ''-_.~''"

definition hex_digit :: "nat \<Rightarrow> char" where
  "hex_digit n = ''0123456789ABCDEF'' ! n"

definition escape_byte :: "char \<Rightarrow> string" where
  "escape_byte c =
     (if c = CHR '' '' then ''+''
      else if unreserved c then [c]
      else [CHR ''%'', hex_digit (of_char c div 16), hex_digit (of_char c mod 16)])"

definition QueryEscape :: "string \<Rightarrow> string" where
  "QueryEscape s = concat (map escape_byte s)"

fun encodeValues :: "string \<Rightarrow> string list \<Rightarrow> string \<Rightarrow> string" where
  "encodeValues keyEscaped [] buf = buf"
| "encodeValues keyEscaped (val # vals) buf =
     encodeValues keyEscaped vals
       ((if length buf > 0 then buf @ ''&'' else buf) @ keyEscaped @ ''='' @ QueryEscape val)"

fun encodeKeys :: "Values \<Rightarrow> string list \<Rightarrow> string \<Rightarrow> string" where
  "encodeKeys v [] buf = buf"
| "encodeKeys v (k # keys) buf =
     encodeKeys v keys
       (encodeValues (QueryEscape k) (case v k of Some vs \<Rightarrow> vs | None \<Rightarrow> []) buf)"

definition Values_Encode :: "Values \<Rightarrow> string list \<Rightarrow> string" where
  "Values_Encode v range_order = (if range_order = [] then [] else encodeKeys v (sort range_order) [])"

fun formLoop :: "FormDataPair list \<Rightarrow> Values \<Rightarrow> Values" where
  "formLoop [] vals = vals"
| "formLoop (fd # fds) vals =
     (if Enabled fd \<and> Key fd \<noteq> [] then formLoop fds (Values_Set vals (Key fd) (Value fd))
      else formLoop fds vals)"

text \<open>
  \<open>buildBody\<close>: the text of the body, \<open>None\<close> for a nil reader. The second argument is
  the order in which \<open>Encode\<close> happens to range over the form values.
\<close>

definition buildBody :: "RequestConfig \<Rightarrow> string list \<Rightarrow> string option" where
  "buildBody config range_order =
     (if BodyType config = ''json'' \<or> BodyType config = ''raw'' then
        (if cfg_Body config \<noteq> [] then Some (cfg_Body config) else None)
      else if BodyType config = ''urlencoded'' then
        (let vals = formLoop (FormData config) Map.empty;
             encoded = Values_Encode vals range_order
         in if encoded \<noteq> [] then Some encoded else None)
      else None)"

fun applyHeaders :: "KeyValuePair list \<Rightarrow> header \<Rightarrow> header" where
  "applyHeaders [] hdr = hdr"
| "applyHeaders (h # hs) hdr =
     (if Enabled h \<and> Key h \<noteq> [] then applyHeaders hs (Header_Set hdr (Key h) (Value h))
      else applyHeaders hs hdr)"

text \<open>
  \<open>req.AddCookie\<close>: the cookie is written as \<open>name=value\<close> after the sanitising of
  \<open>net/http\<close> (line breaks in the name become hyphens; bytes outside the cookie-value
  set are dropped; a value with a space or comma is quoted) and joined to an existing
  \<open>Cookie\<close> header by \<open>; \<close>.
\<close>

definition sanitizeCookieName :: "string \<Rightarrow> string" where
  "sanitizeCookieName n = map (\<lambda>c. if c = CHR 0x0A \<or> c = CHR 0x0D then CHR ''-'' else c) n"

definition validCookieValueByte :: "char \<Rightarrow> bool" where
  "validCookieValueByte b \<longleftrightarrow>
     32 \<le> (of_char b :: nat) \<and> (of_char b :: nat) < 127 \<and>
     b \<noteq> CHR 0x22 \<and> b \<noteq> CHR '';'' \<and> b \<noteq> CHR 0x5C"

definition sanitizeCookieValue :: "string \<Rightarrow> string" where
  "sanitizeCookieValue v =
     (let v' = filter validCookieValueByte v in
      if v' = [] then v'
      else if CHR '' '' \<in> set v' \<or> CHR '','' \<in> set v' then [CHR 0x22] @ v' @ [CHR 0x22]
      else v')"

definition AddCookie :: "header \<Rightarrow> string \<Rightarrow> string \<Rightarrow> header" where
  "AddCookie hdr name val =
     (let s = sanitizeCookieName name @ ''='' @ sanitizeCookieValue val;
          c = Header_Get hdr ''Cookie''
      in if c \<noteq> [] then Header_Set hdr ''Cookie'' (c @ ''; '' @ s)
         else Header_Set hdr ''Cookie'' s)"

fun applyCookies :: "KeyValuePair list \<Rightarrow> header \<Rightarrow> header" where
  "applyCookies [] hdr = hdr"
| "applyCookies (c # cs) hdr =
     (if Enabled c \<and> Key c \<noteq> [] then applyCookies cs (AddCookie hdr (Key c) (Value c))
      else applyCookies cs hdr)"

text \<open>\<open>base64.StdEncoding.EncodeToString\<close>.\<close>

definition base64_char :: "nat \<Rightarrow> char" where
  "base64_char n =
     ''ABCDEFGHIJKLMNOPQRSTUVWXYZabcdefghijklmnopqrstuvwxyz0123456789+/'' ! n"

fun base64_nat :: "nat list \<Rightarrow> string" where
  "base64_nat [] = []"
| "base64_nat [a] = [base64_char (a div 4), base64_char ((a mod 4) * 16), CHR ''='', CHR ''='']"
| "base64_nat [a, b] =
     [base64_char (a div 4), base64_char ((a mod 4) * 16 + b div 16),
      base64_char ((b mod 16) * 4), CHR ''='']"
| "base64_nat (a # b # c # rest) =
     [base64_char (a div 4), base64_char ((a mod 4) * 16 + b div 16),
      base64_char ((b mod 16) * 4 + c div 64), base64_char (c mod 64)] @ base64_nat rest"

definition base64_of_string :: "string \<Rightarrow> string" where
  "base64_of_string s = base64_nat (map of_char s)"

text \<open>
  \<open>applyAuth\<close>, as far as the header goes: an API key added to the query changes the
  URL and leaves the header as it is.
\<close>

definition applyAuth :: "AuthConfig \<Rightarrow> header \<Rightarrow> header" where
  "applyAuth auth hdr =
     (if AuthType auth = ''bearer'' then
        (if Bearer auth \<noteq> [] then Header_Set hdr ''Authorization'' (''Bearer '' @ Bearer auth)
         else hdr)
      else if AuthType auth = ''basic'' then
        (case Basic auth of
           Some b \<Rightarrow>
             Header_Set hdr ''Authorization''
               (''Basic '' @ base64_of_string (Username b @ '':'' @ Password b))
         | None \<Rightarrow> hdr)
      else if AuthType auth = ''apikey'' then
        (case ApiKey auth of
           Some k \<Rightarrow>
             (if AddTo k = ''header'' then Header_Set hdr (ApiKeyName k) (ApiKeyValue k) else hdr)
         | None \<Rightarrow> hdr)
      else hdr)"

definition applyContentType :: "RequestConfig \<Rightarrow> header \<Rightarrow> header" where
  "applyContentType config hdr =
     (if Header_Get hdr ''Content-Type'' \<noteq> [] then hdr
      else if BodyType config = ''json'' then Header_Set hdr ''Content-Type'' ''application/json''
      else if BodyType config = ''urlencoded''
        then Header_Set hdr ''Content-Type'' ''application/x-www-form-urlencoded''
      else hdr)"

text \<open>The header of the request \<open>buildRequest\<close> returns.\<close>

definition requestHeader :: "RequestConfig \<Rightarrow> header" where
  "requestHeader config =
     applyContentType config
       (applyAuth (Auth config)
          (applyCookies (Cookies config) (applyHeaders (Headers config) Map.empty)))"

section \<open>Assembling the response (parseResponse)\<close>

text \<open>
  \<open>io.ReadAll(io.LimitReader(body, n))\<close>: the bytes of the body up to \<open>n\<close>. Once
  \<open>n\<close> bytes are read the limited reader reports the end of the stream, whatever the
  body still holds; an error of the body before that is returned.
\<close>

fun readAllLimited :: "nat \<Rightarrow> body_reader \<Rightarrow> bytes \<Rightarrow> error + bytes" where
  "readAllLimited n [] b = Inr b"
| "readAllLimited n ((d, readErr) # reads) b =
     (if n = 0 then Inr b
      else if length d > n then Inr (b @ take n d)
      else (case readErr of
              ReadNil \<Rightarrow> readAllLimited (n - length d) reads (b @ d)
            | ReadEOF \<Rightarrow> Inr (b @ d)
            | ReadFailed \<Rightarrow> Inl BodyReadError))"

text \<open>\<open>utf8.Valid\<close>, on the values of the bytes.\<close>

definition cont :: "nat \<Rightarrow> bool" where
  "cont b \<longleftrightarrow> 128 \<le> b \<and> b \<le> 191"

fun utf8_valid :: "nat list \<Rightarrow> bool" where
  "utf8_valid [] = True"
| "utf8_valid (a # r) =
     (if a < 128 then utf8_valid r
      else if 194 \<le> a \<and> a \<le> 223 then
        (case r of b # r1 \<Rightarrow> cont b \<and> utf8_valid r1 | _ \<Rightarrow> False)
      else if 224 \<le> a \<and> a \<le> 239 then
        (case r of
           b # c # r2 \<Rightarrow>
             (if a = 224 then 160 \<le> b \<and> b \<le> 191
              else if a = 237 then 128 \<le> b \<and> b \<le> 159
              else cont b) \<and> cont c \<and> utf8_valid r2
         | _ \<Rightarrow> False)
      else if 240 \<le> a \<and> a \<le> 244 then
        (case r of
           b # c # d # r3 \<Rightarrow>
             (if a = 240 then 144 \<le> b \<and> b \<le> 191
              else if a = 244 then 128 \<le> b \<and> b \<le> 143
              else cont b) \<and> cont c \<and> cont d \<and> utf8_valid r3
         | _ \<Rightarrow> False)
      else False)"

definition utf8_Valid :: "bytes \<Rightarrow> bool" where
  "utf8_Valid data = utf8_valid (map of_char data)"

definition containsNullBytes :: "bytes \<Rightarrow> bool" where
  "containsNullBytes data \<longleftrightarrow> CHR 0x00 \<in> set data"

text \<open>\<open>strings.Join(v, sep)\<close>.\<close>

fun Join :: "string list \<Rightarrow> string \<Rightarrow> string" where
  "Join [] sep = []"
| "Join [v] sep = v"
| "Join (v # w # vs) sep = v @ sep @ Join (w # vs) sep"

text \<open>
  \<open>decompressBody\<close>. The gzip and flate readers are library code and arguments here:
  each maps the compressed bytes to the decompressed ones, or to \<open>None\<close> when reading
  fails. \<open>None\<close> is also the result for any other encoding (\<open>nil, nil\<close>): the caller
  replaces the body only when there is no error and a result.
\<close>

definition decompressBody ::
  "(bytes \<Rightarrow> bytes option) \<Rightarrow> (bytes \<Rightarrow> bytes option) \<Rightarrow> bytes \<Rightarrow> string \<Rightarrow> bytes option" where
  "decompressBody gunzip inflate data encoding =
     (if encoding = ''gzip'' then gunzip data
      else if encoding = ''deflate'' then inflate data
      else None)"

record ResponseData =
  rd_Status :: int
  rd_StatusText :: string
  rd_Headers :: "string \<rightharpoonup> string"
  rd_Body :: string
  Size :: nat
  IsBase64 :: bool
  ContentEncoding :: string

definition maxBodySize :: nat where
  "maxBodySize = 100 * 1024 * 1024"

definition parseResponse ::
  "(string \<Rightarrow> string) \<Rightarrow> (bytes \<Rightarrow> bytes option) \<Rightarrow> (bytes \<Rightarrow> bytes option) \<Rightarrow> Response \<Rightarrow>
   error + ResponseData" where
  "parseResponse unicode_lower gunzip inflate r =
     (case readAllLimited maxBodySize (RespBody r) [] of
        Inl err \<Rightarrow> Inl err
      | Inr bodyBytes \<Rightarrow>
          (let headers =
                 (\<lambda>k. case RespHeader r k of
                         None \<Rightarrow> None
                       | Some v \<Rightarrow>
                           if length v > 1 then Some (Join v [CHR 0x0A])
                           else if length v = 1 then Some (v ! 0)
                           else None);
               rawSize = length bodyBytes;
               contentEncoding =
                 ToLower unicode_lower (Header_Get (RespHeader r) ''Content-Encoding'');
               bodyBytes' =
                 (case decompressBody gunzip inflate bodyBytes contentEncoding of
                    Some decompressed \<Rightarrow> decompressed
                  | None \<Rightarrow> bodyBytes);
               isText = (utf8_Valid bodyBytes' \<and> \<not> containsNullBytes bodyBytes')
           in Inr \<lparr>rd_Status = StatusCode r, rd_StatusText = Status r, rd_Headers = headers,
                    rd_Body = (if isText then bodyBytes' else base64_of_string bodyBytes'),
                    Size = rawSize, IsBase64 = (\<not> isText),
                    ContentEncoding = contentEncoding\<rparr>))"

section \<open>Following redirects (internal/httpclient/redirect.go)\<close>

text \<open>
  What the redirect driver calls outside the repository: \<open>client.Do\<close> (the answer to
  the request of the \<open>i\<close>-th pass of the loop), \<open>URL.String\<close>, \<open>URL.Parse\<close> (the
  resolution of a reference against a URL) and \<open>url.Parse\<close> inside
  \<open>http.NewRequestWithContext\<close>; \<open>None\<close> is a non-nil error.
\<close>

record 'u http_env =
  client_Do :: "nat \<Rightarrow> 'u Request \<Rightarrow> error + Response"
  URL_String :: "'u \<Rightarrow> string"
  URL_Parse :: "'u \<Rightarrow> string \<Rightarrow> 'u option"
  url_Parse :: "string \<Rightarrow> 'u option"

record RedirectHop =
  hop_URL :: string
  hop_Status :: int
  hop_StatusText :: string
  hop_Headers :: "string \<rightharpoonup> string"

definition NewRequestWithContext :: "'u http_env \<Rightarrow> string \<Rightarrow> string \<Rightarrow> error + 'u Request" where
  "NewRequestWithContext env method urlStr =
     (case url_Parse env urlStr of
        None \<Rightarrow> Inl NewRequestError
      | Some u \<Rightarrow>
          Inr \<lparr>Method = method, url = u, Header = Map.empty, Body = None, ContentLength = 0\<rparr>)"

definition hopHeaders :: "header \<Rightarrow> string \<rightharpoonup> string" where
  "hopHeaders h =
     (\<lambda>k. case h k of
             None \<Rightarrow> None
           | Some v \<Rightarrow> if length v > 0 then Some (Join v [CHR 0x0A]) else None)"

text \<open>
  The loop \<open>for i := 0; i < maxRedirects; i++\<close>: the third argument counts the passes
  that are left, the fourth is \<open>i\<close>. The result is the pair of the hops and the response
  or error (the Go function returns the hops with both).
\<close>

fun redirectLoop ::
  "'u http_env \<Rightarrow> int \<Rightarrow> nat \<Rightarrow> nat \<Rightarrow> 'u Request \<Rightarrow> RedirectHop list
     \<Rightarrow> RedirectHop list \<times> (error + Response)" where
  "redirectLoop env maxRedirects 0 i req hops = (hops, Inl (TooManyRedirects maxRedirects))"
| "redirectLoop env maxRedirects (Suc n) i req hops =
     (case client_Do env i req of
        Inl err \<Rightarrow> (hops, Inl err)
      | Inr resp \<Rightarrow>
          if StatusCode resp < 300 \<or> StatusCode resp \<ge> 400 then (hops, Inr resp)
          else
            (let location = Header_Get (RespHeader resp) ''Location'' in
             if location = [] then (hops, Inr resp)
             else
               (let hops' = hops @ [\<lparr>hop_URL = URL_String env (url req),
                                      hop_Status = StatusCode resp,
                                      hop_StatusText = Status resp,
                                      hop_Headers = hopHeaders (RespHeader resp)\<rparr>]
                in case URL_Parse env (url req) location of
                     None \<Rightarrow> (hops', Inl InvalidRedirectURL)
                   | Some nextURL \<Rightarrow>
                       (case NewRequestWithContext env ''GET'' (URL_String env nextURL) of
                          Inl err \<Rightarrow> (hops', Inl err)
                        | Inr req' \<Rightarrow> redirectLoop env maxRedirects n (Suc i) req' hops'))))"

definition followRedirects ::
  "'u http_env \<Rightarrow> 'u Request \<Rightarrow> int \<Rightarrow> RedirectHop list \<times> (error + Response)" where
  "followRedirects env req maxRedirects =
     (let maxRedirects' = (if maxRedirects \<le> 0 then 10 else maxRedirects)
      in redirectLoop env maxRedirects' (nat maxRedirects') 0 req [])"

section \<open>The timing tracker (internal/httpclient/timing.go)\<close>

text \<open>
  A \<open>time.Time\<close> is an instant in nanoseconds; the zero \<open>Time\<close> is 0 and \<open>IsZero\<close>
  tests for it. A \<open>time.Duration\<close> is a signed 64-bit count of nanoseconds: \<open>Sub\<close>
  saturates at its bounds. \<open>Milliseconds\<close> is the integer division by \<open>10^6\<close>, which
  in Go truncates towards zero.
\<close>

type_synonym Time = int
type_synonym Duration = int

definition IsZero :: "Time \<Rightarrow> bool" where
  "IsZero t \<longleftrightarrow> t = 0"

definition maxDuration :: Duration where
  "maxDuration = 2 ^ 63 - 1"

definition minDuration :: Duration where
  "minDuration = - (2 ^ 63)"

definition Sub :: "Time \<Rightarrow> Time \<Rightarrow> Duration" where
  "Sub t u =
     (if t - u > maxDuration then maxDuration
      else if t - u < minDuration then minDuration
      else t - u)"

definition Milliseconds :: "Duration \<Rightarrow> int" where
  "Milliseconds d = (if d < 0 then - ((- d) div 1000000) else d div 1000000)"

record timingTracker =
  connectStart :: Time
  connectDone :: Time
  tlsStart :: Time
  tlsDone :: Time
  gotFirstByte :: Time
  requestStart :: Time
  bodyDone :: Time

record TimingData =
  DNS :: int
  TCP :: int
  TLS :: int
  TTFB :: int
  Download :: int
  Total :: int

definition newTimingTracker :: timingTracker where
  "newTimingTracker =
     \<lparr>connectStart = 0, connectDone = 0, tlsStart = 0, tlsDone = 0, gotFirstByte = 0,
      requestStart = 0, bodyDone = 0\<rparr>"

definition setTCP :: "timingTracker \<Rightarrow> Time \<Rightarrow> Time \<Rightarrow> timingTracker" where
  "setTCP t start done = t\<lparr>connectStart := start, connectDone := done\<rparr>"

definition setTLS :: "timingTracker \<Rightarrow> Time \<Rightarrow> Time \<Rightarrow> timingTracker" where
  "setTLS t start done = t\<lparr>tlsStart := start, tlsDone := done\<rparr>"

text \<open>The hook \<open>GotFirstResponseByte\<close> of \<open>trace\<close>, called at the instant \<open>now\<close>.\<close>

definition GotFirstResponseByte :: "timingTracker \<Rightarrow> Time \<Rightarrow> timingTracker" where
  "GotFirstResponseByte t now = t\<lparr>gotFirstByte := now\<rparr>"

definition result :: "timingTracker \<Rightarrow> TimingData" where
  "result t =
     (let td = \<lparr>DNS = 0, TCP = 0, TLS = 0, TTFB = 0, Download = 0, Total = 0\<rparr>;
          td = (if \<not> IsZero (connectStart t) \<and> \<not> IsZero (connectDone t)
                then td\<lparr>TCP := Milliseconds (Sub (connectDone t) (connectStart t))\<rparr> else td);
          td = (if \<not> IsZero (tlsStart t) \<and> \<not> IsZero (tlsDone t)
                then td\<lparr>TLS := Milliseconds (Sub (tlsDone t) (tlsStart t))\<rparr> else td);
          td = (if \<not> IsZero (requestStart t) \<and> \<not> IsZero (gotFirstByte t)
                then td\<lparr>TTFB := Milliseconds (Sub (gotFirstByte t) (requestStart t))\<rparr> else td);
          td = (if \<not> IsZero (gotFirstByte t) \<and> \<not> IsZero (bodyDone t)
                then td\<lparr>Download := Milliseconds (Sub (bodyDone t) (gotFirstByte t))\<rparr> else td);
          td = (if \<not> IsZero (requestStart t) \<and> \<not> IsZero (bodyDone t)
                then td\<lparr>Total := Milliseconds (Sub (bodyDone t) (requestStart t))\<rparr> else td)
      in td)"

section \<open>The library sort (sort.Slice)\<close>

text \<open>
  \<open>sort.Slice\<close> is library code: the pattern-defeating quicksort of package \<open>sort\<close>
  (\<open>pdqsort_func\<close> and its helpers). The slice is a list, \<open>data.Less(i, j)\<close> compares
  the elements at two indices with the comparison of the caller, \<open>data.Swap(i, j)\<close>
  exchanges them.
\<close>

definition data_Less :: "('a \<Rightarrow> 'a \<Rightarrow> bool) \<Rightarrow> 'a list \<Rightarrow> nat \<Rightarrow> nat \<Rightarrow> bool" where
  "data_Less lt data i j = lt (data ! i) (data ! j)"

definition data_Swap :: "'a list \<Rightarrow> nat \<Rightarrow> nat \<Rightarrow> 'a list" where
  "data_Swap data i j = data[i := data ! j, j := data ! i]"

text \<open>
  \<open>insertionSort_func\<close>: \<open>for i := a + 1; i < b; i++\<close> around
  \<open>for j := i; j > a && data.Less(j, j-1); j--\<close>, which swaps \<open>j\<close> and \<open>j - 1\<close>.
\<close>

fun insertionInner :: "('a \<Rightarrow> 'a \<Rightarrow> bool) \<Rightarrow> nat \<Rightarrow> nat \<Rightarrow> 'a list \<Rightarrow> 'a list" where
  "insertionInner lt a 0 data = data"
| "insertionInner lt a (Suc j) data =
     (if Suc j > a \<and> data_Less lt data (Suc j) j
      then insertionInner lt a j (data_Swap data (Suc j) j)
      else data)"

definition insertionSort_func :: "('a \<Rightarrow> 'a \<Rightarrow> bool) \<Rightarrow> 'a list \<Rightarrow> nat \<Rightarrow> nat \<Rightarrow> 'a list" where
  "insertionSort_func lt data a b = fold (insertionInner lt a) [a + 1 ..< b] data"

text \<open>\<open>siftDown_func\<close> and \<open>heapSort_func\<close>, the fallback after too many bad pivots.\<close>

function siftDown_func ::
  "('a \<Rightarrow> 'a \<Rightarrow> bool) \<Rightarrow> 'a list \<Rightarrow> nat \<Rightarrow> nat \<Rightarrow> nat \<Rightarrow> 'a list" where
  "siftDown_func lt data root hi first =
     (let child = 2 * root + 1 in
      if child \<ge> hi then data
      else
        (let child' =
               (if child + 1 < hi \<and> data_Less lt data (first + child) (first + child + 1)
                then child + 1 else child)
         in if \<not> data_Less lt data (first + root) (first + child') then data
            else siftDown_func lt (data_Swap data (first + root) (first + child')) child' hi first))"
  by pat_completeness auto
termination
  by (relation "measure (\<lambda>(lt, data, root, hi, first). hi - root)") auto

declare siftDown_func.simps [simp del]

definition heapSort_func :: "('a \<Rightarrow> 'a \<Rightarrow> bool) \<Rightarrow> 'a list \<Rightarrow> nat \<Rightarrow> nat \<Rightarrow> 'a list" where
  "heapSort_func lt data a b =
     (let first = a; lo = 0; hi = b - a;
          heap = fold (\<lambda>i d. siftDown_func lt d i hi first) (rev [0 ..< (hi - 1) div 2 + 1]) data
      in fold (\<lambda>i d. siftDown_func lt (data_Swap d first (first + i)) lo i first)
           (rev [0 ..< hi]) heap)"

text \<open>
  \<open>choosePivot_func\<close>: a static pivot below 8 elements, the median of three below 50,
  Tukey's ninther from there on; the number of swaps the medians needed gives the hint.
\<close>

datatype sortedHint = unknownHint | increasingHint | decreasingHint

definition order2_func ::
  "('a \<Rightarrow> 'a \<Rightarrow> bool) \<Rightarrow> 'a list \<Rightarrow> nat \<Rightarrow> nat \<Rightarrow> nat \<Rightarrow> nat \<times> nat \<times> nat" where
  "order2_func lt data a b swaps =
     (if data_Less lt data b a then (b, a, swaps + 1) else (a, b, swaps))"

definition median_func ::
  "('a \<Rightarrow> 'a \<Rightarrow> bool) \<Rightarrow> 'a list \<Rightarrow> nat \<Rightarrow> nat \<Rightarrow> nat \<Rightarrow> nat \<Rightarrow> nat \<times> nat" where
  "median_func lt data a b c swaps =
     (case order2_func lt data a b swaps of
        (a1, b1, swaps1) \<Rightarrow>
          (case order2_func lt data b1 c swaps1 of
             (b2, c2, swaps2) \<Rightarrow>
               (case order2_func lt data a1 b2 swaps2 of
                  (a3, b3, swaps3) \<Rightarrow> (b3, swaps3))))"

definition medianAdjacent_func ::
  "('a \<Rightarrow> 'a \<Rightarrow> bool) \<Rightarrow> 'a list \<Rightarrow> nat \<Rightarrow> nat \<Rightarrow> nat \<times> nat" where
  "medianAdjacent_func lt data a swaps = median_func lt data (a - 1) a (a + 1) swaps"

definition hint_of_swaps :: "nat \<Rightarrow> sortedHint" where
  "hint_of_swaps swaps =
     (if swaps = 0 then increasingHint
      else if swaps = 4 * 3 then decreasingHint
      else unknownHint)"

definition choosePivot_func ::
  "('a \<Rightarrow> 'a \<Rightarrow> bool) \<Rightarrow> 'a list \<Rightarrow> nat \<Rightarrow> nat \<Rightarrow> nat \<times> sortedHint" where
  "choosePivot_func lt data a b =
     (let l = b - a;
          i = a + l div 4 * 1;
          j = a + l div 4 * 2;
          k = a + l div 4 * 3
      in if l \<ge> 8 then
           (if l \<ge> 50 then
              (case medianAdjacent_func lt data i 0 of
                 (i', swaps1) \<Rightarrow>
                   (case medianAdjacent_func lt data j swaps1 of
                      (j', swaps2) \<Rightarrow>
                        (case medianAdjacent_func lt data k swaps2 of
                           (k', swaps3) \<Rightarrow>
                             (case median_func lt data i' j' k' swaps3 of
                                (m, swaps) \<Rightarrow> (m, hint_of_swaps swaps)))))
            else
              (case median_func lt data i j k 0 of
                 (m, swaps) \<Rightarrow> (m, hint_of_swaps swaps)))
         else (j, hint_of_swaps 0))"

text \<open>\<open>reverseRange_func\<close>: the swaps of \<open>a + k\<close> and \<open>b - 1 - k\<close> while the first is below the second.\<close>

definition reverseRange_func :: "'a list \<Rightarrow> nat \<Rightarrow> nat \<Rightarrow> 'a list" where
  "reverseRange_func data a b =
     fold (\<lambda>k d. data_Swap d (a + k) (b - 1 - k)) [0 ..< (b - a) div 2] data"

text \<open>
  \<open>partialInsertionSort_func\<close>: at most five rounds, each of which looks for the next
  adjacent pair out of order, returns \<open>true\<close> when there is none, returns \<open>false\<close> on a
  range of fewer than 50 elements, and otherwise swaps the pair and shifts its two
  elements into place.
\<close>

function nextDescent :: "('a \<Rightarrow> 'a \<Rightarrow> bool) \<Rightarrow> 'a list \<Rightarrow> nat \<Rightarrow> nat \<Rightarrow> nat" where
  "nextDescent lt data i b =
     (if i < b \<and> \<not> data_Less lt data i (i - 1) then nextDescent lt data (Suc i) b else i)"
  by pat_completeness auto
termination
  by (relation "measure (\<lambda>(lt, data, i, b). b - i)") auto

declare nextDescent.simps [simp del]

fun shiftSmaller :: "('a \<Rightarrow> 'a \<Rightarrow> bool) \<Rightarrow> nat \<Rightarrow> 'a list \<Rightarrow> 'a list" where
  "shiftSmaller lt 0 data = data"
| "shiftSmaller lt (Suc j) data =
     (if \<not> data_Less lt data (Suc j) j then data
      else shiftSmaller lt j (data_Swap data (Suc j) j))"

function shiftGreater :: "('a \<Rightarrow> 'a \<Rightarrow> bool) \<Rightarrow> 'a list \<Rightarrow> nat \<Rightarrow> nat \<Rightarrow> 'a list" where
  "shiftGreater lt data j b =
     (if j < b then
        (if \<not> data_Less lt data j (j - 1) then data
         else shiftGreater lt (data_Swap data j (j - 1)) (Suc j) b)
      else data)"
  by pat_completeness auto
termination
  by (relation "measure (\<lambda>(lt, data, j, b). b - j)") auto

declare shiftGreater.simps [simp del]

fun partialSteps ::
  "nat \<Rightarrow> ('a \<Rightarrow> 'a \<Rightarrow> bool) \<Rightarrow> 'a list \<Rightarrow> nat \<Rightarrow> nat \<Rightarrow> nat \<Rightarrow> 'a list \<times> bool" where
  "partialSteps 0 lt data i a b = (data, False)"
| "partialSteps (Suc steps) lt data i a b =
     (let i' = nextDescent lt data i b in
      if i' = b then (data, True)
      else if b - a < 50 then (data, False)
      else
        (let data1 = data_Swap data i' (i' - 1);
             data2 = (if i' - a \<ge> 2 then shiftSmaller lt (i' - 1) data1 else data1);
             data3 = (if b - i' \<ge> 2 then shiftGreater lt data2 (i' + 1) b else data2)
         in partialSteps steps lt data3 i' a b))"

definition partialInsertionSort_func ::
  "('a \<Rightarrow> 'a \<Rightarrow> bool) \<Rightarrow> 'a list \<Rightarrow> nat \<Rightarrow> nat \<Rightarrow> 'a list \<times> bool" where
  "partialInsertionSort_func lt data a b = partialSteps 5 lt data (a + 1) a b"

text \<open>
  \<open>breakPatterns_func\<close>: three swaps around the middle with indices from an xorshift
  generator seeded with the length.
\<close>

fun bits_Len :: "nat \<Rightarrow> nat" where
  "bits_Len n = (if n = 0 then 0 else Suc (bits_Len (n div 2)))"

declare bits_Len.simps [simp del]

unbundle bit_operations_syntax

definition xorshift_Next :: "64 word \<Rightarrow> 64 word" where
  "xorshift_Next r =
     (let r1 = r XOR push_bit 13 r;
          r2 = r1 XOR drop_bit 7 r1
      in r2 XOR push_bit 17 r2)"

definition breakPatterns_func :: "'a list \<Rightarrow> nat \<Rightarrow> nat \<Rightarrow> 'a list" where
  "breakPatterns_func data a b =
     (let length = b - a in
      if length \<ge> 8 then
        (let modulus = 2 ^ bits_Len length;
             idx = a + (length div 4) * 2 - 1;
             swapAt =
               (\<lambda>i (d, random).
                  let random' = xorshift_Next random;
                      other = unat random' mod modulus;
                      other' = (if other \<ge> length then other - length else other)
                  in (data_Swap d (idx + i) (a + other'), random'))
         in fst (fold swapAt [0, 1, 2] (data, word_of_nat length)))
      else data)"

text \<open>
  The two scans of a partition: \<open>for i <= j && p(i) { i++ }\<close> and
  \<open>for i <= j && p(j) { j-- }\<close>. The partitions start them with \<open>i\<close> above \<open>a\<close>, so
  \<open>j\<close> does not go below zero.
\<close>

function scanUp :: "(nat \<Rightarrow> bool) \<Rightarrow> nat \<Rightarrow> nat \<Rightarrow> nat" where
  "scanUp p i j = (if i \<le> j \<and> p i then scanUp p (Suc i) j else i)"
  by pat_completeness auto
termination
  by (relation "measure (\<lambda>(p, i, j). Suc j - i)") auto

declare scanUp.simps [simp del]

fun scanDown :: "(nat \<Rightarrow> bool) \<Rightarrow> nat \<Rightarrow> nat \<Rightarrow> nat" where
  "scanDown p i 0 = 0"
| "scanDown p i (Suc j) = (if i \<le> Suc j \<and> p (Suc j) then scanDown p i j else Suc j)"

text \<open>
  \<open>partition_func\<close>: the pivot goes to \<open>a\<close>, the scans from both ends swap the pairs
  that are on the wrong side, and the pivot goes to the place where the scans met.
\<close>

function partitionLoop ::
  "('a \<Rightarrow> 'a \<Rightarrow> bool) \<Rightarrow> 'a list \<Rightarrow> nat \<Rightarrow> nat \<Rightarrow> nat \<Rightarrow> 'a list \<times> nat" where
  "partitionLoop lt data a i j =
     (let i' = scanUp (\<lambda>k. data_Less lt data k a) i j;
          j' = scanDown (\<lambda>k. \<not> data_Less lt data k a) i' j
      in if i' > j' then (data, j')
         else partitionLoop lt (data_Swap data i' j') a (Suc i') (j' - 1))"
  by pat_completeness auto
termination
proof (relation "measure (\<lambda>(lt, data, a, i, j). Suc j - i)", goal_cases)
  case 1
  show ?case by simp
next
  case (2 lt data a i j i' j')
  have up: "i \<le> scanUp p i j" for p
    by (induction p i j rule: scanUp.induct) (subst scanUp.simps, auto)
  have down: "scanDown p k j \<le> j" for p k
    by (induction j) auto
  from 2 up [of "\<lambda>k. data_Less lt data k a"]
    down [of "\<lambda>k. \<not> data_Less lt data k a" i']
  show ?case by auto
qed

declare partitionLoop.simps [simp del]

definition partition_func ::
  "('a \<Rightarrow> 'a \<Rightarrow> bool) \<Rightarrow> 'a list \<Rightarrow> nat \<Rightarrow> nat \<Rightarrow> nat \<Rightarrow> 'a list \<times> nat \<times> bool" where
  "partition_func lt data a b pivot =
     (let data1 = data_Swap data a pivot;
          i = scanUp (\<lambda>k. data_Less lt data1 k a) (a + 1) (b - 1);
          j = scanDown (\<lambda>k. \<not> data_Less lt data1 k a) i (b - 1)
      in if i > j then (data_Swap data1 j a, j, True)
         else
           (case partitionLoop lt (data_Swap data1 i j) a (i + 1) (j - 1) of
              (data2, j') \<Rightarrow> (data_Swap data2 j' a, j', False)))"

text \<open>
  \<open>partitionEqual_func\<close>, for a range without elements below the pivot: the elements
  equal to the pivot, then the greater ones.
\<close>

function partitionEqualLoop ::
  "('a \<Rightarrow> 'a \<Rightarrow> bool) \<Rightarrow> 'a list \<Rightarrow> nat \<Rightarrow> nat \<Rightarrow> nat \<Rightarrow> 'a list \<times> nat" where
  "partitionEqualLoop lt data a i j =
     (let i' = scanUp (\<lambda>k. \<not> data_Less lt data a k) i j;
          j' = scanDown (\<lambda>k. data_Less lt data a k) i' j
      in if i' > j' then (data, i')
         else partitionEqualLoop lt (data_Swap data i' j') a (Suc i') (j' - 1))"
  by pat_completeness auto
termination
proof (relation "measure (\<lambda>(lt, data, a, i, j). Suc j - i)", goal_cases)
  case 1
  show ?case by simp
next
  case (2 lt data a i j i' j')
  have up: "i \<le> scanUp p i j" for p
    by (induction p i j rule: scanUp.induct) (subst scanUp.simps, auto)
  have down: "scanDown p k j \<le> j" for p k
    by (induction j) auto
  from 2 up [of "\<lambda>k. \<not> data_Less lt data a k"]
    down [of "\<lambda>k. data_Less lt data a k" i']
  show ?case by auto
qed

declare partitionEqualLoop.simps [simp del]

definition partitionEqual_func ::
  "('a \<Rightarrow> 'a \<Rightarrow> bool) \<Rightarrow> 'a list \<Rightarrow> nat \<Rightarrow> nat \<Rightarrow> nat \<Rightarrow> 'a list \<times> nat" where
  "partitionEqual_func lt data a b pivot =
     partitionEqualLoop lt (data_Swap data a pivot) a (a + 1) (b - 1)"

text \<open>
  \<open>pdqsort_func\<close>. Its loop narrows \<open>[a, b)\<close> and calls itself on the smaller side of
  every partition. The first argument bounds the nesting of calls and rounds of the
  loop: \<open>None\<close> is running out of it. \<open>wasBalanced\<close> and \<open>wasPartitioned\<close> are the two
  local flags, \<open>true\<close> when the function is entered.
\<close>

function pdqsort_func ::
  "nat \<Rightarrow> ('a \<Rightarrow> 'a \<Rightarrow> bool) \<Rightarrow> 'a list \<Rightarrow> nat \<Rightarrow> nat \<Rightarrow> nat \<Rightarrow> bool \<Rightarrow> bool \<Rightarrow> 'a list option" where
  "pdqsort_func 0 lt data a b limit wasBalanced wasPartitioned = None"
| "pdqsort_func (Suc n) lt data a b limit wasBalanced wasPartitioned =
     (let length = b - a in
      if length \<le> 12 then Some (insertionSort_func lt data a b)
      else if limit = 0 then Some (heapSort_func lt data a b)
      else
        (let data1 = (if \<not> wasBalanced then breakPatterns_func data a b else data);
             limit1 = (if \<not> wasBalanced then limit - 1 else limit);
             chosen = choosePivot_func lt data1 a b;
             decreasing = (snd chosen = decreasingHint);
             data2 = (if decreasing then reverseRange_func data1 a b else data1);
             pivot = (if decreasing then (b - 1) - (fst chosen - a) else fst chosen);
             hint = (if decreasing then increasingHint else snd chosen);
             tried =
               (if wasBalanced \<and> wasPartitioned \<and> hint = increasingHint
                then partialInsertionSort_func lt data2 a b
                else (data2, False));
             data3 = fst tried
         in if snd tried then Some data3
            else if a > 0 \<and> \<not> data_Less lt data3 (a - 1) pivot then
              (case partitionEqual_func lt data3 a b pivot of
                 (data4, mid) \<Rightarrow> pdqsort_func n lt data4 mid b limit1 wasBalanced wasPartitioned)
            else
              (case partition_func lt data3 a b pivot of
                 (data4, mid, alreadyPartitioned) \<Rightarrow>
                   (let leftLen = mid - a;
                        rightLen = b - mid;
                        balanceThreshold = length div 8
                    in if leftLen < rightLen then
                         (case pdqsort_func n lt data4 a mid limit1 True True of
                            None \<Rightarrow> None
                          | Some data5 \<Rightarrow>
                              pdqsort_func n lt data5 (mid + 1) b limit1
                                (leftLen \<ge> balanceThreshold) alreadyPartitioned)
                       else
                         (case pdqsort_func n lt data4 (mid + 1) b limit1 True True of
                            None \<Rightarrow> None
                          | Some data5 \<Rightarrow>
                              pdqsort_func n lt data5 a mid limit1
                                (rightLen \<ge> balanceThreshold) alreadyPartitioned)))))"
  by pat_completeness auto
termination
  by (relation "measure (\<lambda>(n, rest). n)") (simp_all (no_asm))

text \<open>
  \<open>sort.Slice(x, less)\<close>: \<open>pdqsort_func\<close> on the whole slice with the limit
  \<open>bits.Len(length)\<close>. Every call and round works on a shorter range than the one
  before, so the length bounds their nesting.
\<close>

definition sort_Slice :: "('a \<Rightarrow> 'a \<Rightarrow> bool) \<Rightarrow> 'a list \<Rightarrow> 'a list option" where
  "sort_Slice lt x =
     pdqsort_func (Suc (length x)) lt x 0 (length x) (bits_Len (length x)) True True"

section \<open>The byte tap and the merged timeline (mergeConnEntries)\<close>

text \<open>
  \<open>elapsed\<close> is a \<open>time.Duration\<close>; the sum \<open>e.elapsed + offset\<close> is a 64-bit signed
  addition, which wraps around.
\<close>

definition wrap64 :: "int \<Rightarrow> int" where
  "wrap64 x = (x + 2 ^ 63) mod 2 ^ 64 - 2 ^ 63"

record connEntry =
  elapsed :: Duration
  direction :: string
  data :: bytes

record loggedConn =
  start :: Time
  entries :: "connEntry list"

text \<open>The inner loop: the entries of one connection, shifted by \<open>offset\<close>, are appended.\<close>

fun appendShifted :: "Duration \<Rightarrow> connEntry list \<Rightarrow> connEntry list \<Rightarrow> connEntry list" where
  "appendShifted offset [] merged = merged"
| "appendShifted offset (e # es) merged =
     appendShifted offset es
       (merged @ [\<lparr>elapsed = wrap64 (elapsed e + offset), direction = direction e, data = data e\<rparr>])"

fun mergeLoop :: "Time \<Rightarrow> loggedConn list \<Rightarrow> connEntry list \<Rightarrow> connEntry list" where
  "mergeLoop base [] merged = merged"
| "mergeLoop base (conn # conns) merged =
     mergeLoop base conns (appendShifted (Sub (start conn) base) (entries conn) merged)"

text \<open>
  The sorting function is an argument: \<open>sort_Slice\<close> above is the implementation of the
  library at present, and the documentation of \<open>sort.Slice\<close> promises a sorted
  permutation and no more ("The sort is not guaranteed to be stable: equal elements may
  be reversed from their original order."). The result is \<open>None\<close> when the sort has none.
\<close>

definition mergeConnEntries ::
  "((connEntry \<Rightarrow> connEntry \<Rightarrow> bool) \<Rightarrow> connEntry list \<Rightarrow> connEntry list option)
     \<Rightarrow> loggedConn list \<Rightarrow> connEntry list option" where
  "mergeConnEntries sorting conns =
     (if length conns = 0 then Some []
      else
        (let base = start (conns ! 0);
             merged = mergeLoop base conns []
         in sorting (\<lambda>a b. elapsed a < elapsed b) merged))"

section \<open>JA3 texts and the ClientHello specification (internal/tls)\<close>

definition isGREASE :: "nat \<Rightarrow> bool" where
  "isGREASE v \<longleftrightarrow>
     v \<in> set [0x0a0a, 0x1a1a, 0x2a2a, 0x3a3a, 0x4a4a, 0x5a5a, 0x6a6a, 0x7a7a,
              0x8a8a, 0x9a9a, 0xaaaa, 0xbaba, 0xcaca, 0xdada, 0xeaea, 0xfafa]"

record ParsedJA3 =
  TLSVersion :: "16 word"
  CipherSuites :: "16 word list"
  Extensions :: "16 word list"
  Curves :: "16 word list"
  PointFormats :: "8 word list"

text \<open>
  The loops over the \<open>-\<close>-separated numbers of a part: a number that does not parse
  in the given width is skipped, the others are appended in order.
\<close>

fun parseIDs :: "nat \<Rightarrow> string list \<Rightarrow> nat list \<Rightarrow> nat list" where
  "parseIDs bitSize [] acc = acc"
| "parseIDs bitSize (s # ss) acc =
     (case ParseUint s bitSize of
        None \<Rightarrow> parseIDs bitSize ss acc
      | Some ident \<Rightarrow> parseIDs bitSize ss (acc @ [ident]))"

definition ParseJA3Text :: "string \<Rightarrow> error + ParsedJA3" where
  "ParseJA3Text ja3 =
     (let parts = Split CHR '','' ja3 in
      if length parts < 3 then Inl (InvalidJA3Format (length parts))
      else case ParseUint (parts ! 0) 16 of
             None \<Rightarrow> Inl InvalidTLSVersion
           | Some ver \<Rightarrow>
               Inr \<lparr>TLSVersion = of_nat ver,
                    CipherSuites =
                      (if parts ! 1 \<noteq> []
                       then map of_nat (parseIDs 16 (Split CHR ''-'' (parts ! 1)) []) else []),
                    Extensions =
                      (if parts ! 2 \<noteq> []
                       then map of_nat (parseIDs 16 (Split CHR ''-'' (parts ! 2)) []) else []),
                    Curves =
                      (if length parts > 3 \<and> parts ! 3 \<noteq> []
                       then map of_nat (parseIDs 16 (Split CHR ''-'' (parts ! 3)) []) else []),
                    PointFormats =
                      (if length parts > 4 \<and> parts ! 4 \<noteq> []
                       then map of_nat (parseIDs 8 (Split CHR ''-'' (parts ! 4)) []) else [])\<rparr>)"

text \<open>
  The extension values of the uTLS library the builder creates, one constructor for each
  type with the fields the builder sets. \<open>UtlsPaddingExtension\<close> is the one with the
  BoringSSL padding length; \<open>BoringGREASEECH\<close> is what the function of that name
  returns.
\<close>

record KeyShare =
  Group :: "16 word"
  Data :: bytes

datatype TLSExtension =
    SNIExtension
  | StatusRequestExtension
  | SupportedCurvesExtension "16 word list"
  | SupportedPointsExtension "8 word list"
  | SignatureAlgorithmsExtension "16 word list"
  | ALPNExtension "string list"
  | StatusRequestV2Extension
  | SCTExtension
  | UtlsPaddingExtension
  | ExtendedMasterSecretExtension
  | UtlsCompressCertExtension "16 word list"
  | SessionTicketExtension
  | SupportedVersionsExtension "16 word list"
  | PSKKeyExchangeModesExtension "8 word list"
  | KeyShareExtension "KeyShare list"
  | RenegotiationInfoExtension
  | ApplicationSettingsExtension "string list"
  | ApplicationSettingsExtensionNew "string list"
  | BoringGREASEECH
  | GenericExtension "16 word"
  | UtlsGREASEExtension

text \<open>The code points of the uTLS constants the builder names.\<close>

definition X25519 :: "16 word" where "X25519 = 29"
definition CurveP256 :: "16 word" where "CurveP256 = 23"
definition CurveP384 :: "16 word" where "CurveP384 = 24"
definition X25519MLKEM768 :: "16 word" where "X25519MLKEM768 = 4588"
definition VersionTLS12 :: "16 word" where "VersionTLS12 = 0x0303"
definition VersionTLS13 :: "16 word" where "VersionTLS13 = 0x0304"
definition CertCompressionBrotli :: "16 word" where "CertCompressionBrotli = 2"

definition defaultSigAlgs :: "16 word list" where
  "defaultSigAlgs = [0x0403, 0x0804, 0x0401, 0x0503, 0x0805, 0x0501, 0x0806, 0x0601]"

definition ja3_curves :: "ParsedJA3 \<Rightarrow> 16 word list" where
  "ja3_curves parsed =
     (if length (Curves parsed) > 0 then Curves parsed else [X25519, CurveP256, CurveP384])"

definition ja3_pointFormats :: "ParsedJA3 \<Rightarrow> 8 word list" where
  "ja3_pointFormats parsed =
     (if length (PointFormats parsed) > 0 then PointFormats parsed else [0])"

text \<open>
  The \<open>switch\<close> in the loop of \<open>mapExtensionIDs\<close>: the extension that is appended for
  an id, \<open>None\<close> where the loop continues without appending (a GREASE id).
\<close>

definition extensionCase :: "ParsedJA3 \<Rightarrow> 16 word \<Rightarrow> TLSExtension option" where
  "extensionCase parsed extID =
     (if extID = 0 then Some SNIExtension
      else if extID = 5 then Some StatusRequestExtension
      else if extID = 10 then Some (SupportedCurvesExtension (0x0a0a # ja3_curves parsed))
      else if extID = 11 then Some (SupportedPointsExtension (ja3_pointFormats parsed))
      else if extID = 13 then Some (SignatureAlgorithmsExtension defaultSigAlgs)
      else if extID = 16 then Some (ALPNExtension [''h2'', ''http/1.1''])
      else if extID = 17 then Some StatusRequestV2Extension
      else if extID = 18 then Some SCTExtension
      else if extID = 21 then Some UtlsPaddingExtension
      else if extID = 23 then Some ExtendedMasterSecretExtension
      else if extID = 27 then Some (UtlsCompressCertExtension [CertCompressionBrotli])
      else if extID = 35 then Some SessionTicketExtension
      else if extID = 43
        then Some (SupportedVersionsExtension [0x0a0a, VersionTLS13, VersionTLS12])
      else if extID = 45 then Some (PSKKeyExchangeModesExtension [1])
      else if extID = 51 then
        Some (KeyShareExtension
          (if X25519MLKEM768 \<in> set (Curves parsed)
           then [\<lparr>Group = 0x0a0a, Data = [CHR 0x00]\<rparr>, \<lparr>Group = X25519MLKEM768, Data = []\<rparr>,
                 \<lparr>Group = X25519, Data = []\<rparr>]
           else [\<lparr>Group = 0x0a0a, Data = [CHR 0x00]\<rparr>, \<lparr>Group = X25519, Data = []\<rparr>]))
      else if extID = 65281 then Some RenegotiationInfoExtension
      else if extID = 17513 then Some (ApplicationSettingsExtension [''h2''])
      else if extID = 17613 then Some (ApplicationSettingsExtensionNew [''h2''])
      else if extID = 65037 then Some BoringGREASEECH
      else if isGREASE (unat extID) then None
      else Some (GenericExtension extID))"

fun extensionLoop :: "ParsedJA3 \<Rightarrow> 16 word list \<Rightarrow> TLSExtension list \<Rightarrow> TLSExtension list" where
  "extensionLoop parsed [] extensions = extensions"
| "extensionLoop parsed (extID # ids) extensions =
     (case extensionCase parsed extID of
        Some ext \<Rightarrow> extensionLoop parsed ids (extensions @ [ext])
      | None \<Rightarrow> extensionLoop parsed ids extensions)"

definition mapExtensionIDs :: "ParsedJA3 \<Rightarrow> TLSExtension list" where
  "mapExtensionIDs parsed = extensionLoop parsed (Extensions parsed) []"

record ClientHelloSpec =
  spec_CipherSuites :: "16 word list"
  CompressionMethods :: "8 word list"
  spec_Extensions :: "TLSExtension list"
  TLSVersMin :: "16 word"
  TLSVersMax :: "16 word"

text \<open>
  \<open>utls.ShuffleChromeTLSExtensions\<close> is library code. It seeds a generator from
  \<open>crypto/rand\<close> on every call and runs \<open>rand.Shuffle\<close> over the list with a swap that
  leaves the list alone when either of the two extensions is a GREASE, a padding or a
  pre-shared-key extension (the builder creates none of the last kind).
  \<open>rand.Shuffle\<close> is the Fisher-Yates shuffle: for \<open>i\<close> from \<open>n - 1\<close> down to 1 it draws
  \<open>j\<close> from 0 to \<open>i\<close> and calls \<open>swap(i, j)\<close>. The numbers of the generator are the
  argument \<open>draw\<close>: the number for \<open>i\<close> is \<open>draw i\<close>, reduced to the range from 0 to \<open>i\<close>.
\<close>

definition skipShuf :: "nat \<Rightarrow> TLSExtension list \<Rightarrow> bool" where
  "skipShuf idx exts \<longleftrightarrow>
     (case exts ! idx of
        UtlsGREASEExtension \<Rightarrow> True
      | UtlsPaddingExtension \<Rightarrow> True
      | _ \<Rightarrow> False)"

definition shuffleSwap :: "TLSExtension list \<Rightarrow> nat \<Rightarrow> nat \<Rightarrow> TLSExtension list" where
  "shuffleSwap exts i j =
     (if skipShuf i exts \<or> skipShuf j exts then exts
      else exts[i := exts ! j, j := exts ! i])"

fun rand_Shuffle :: "(nat \<Rightarrow> nat) \<Rightarrow> nat \<Rightarrow> TLSExtension list \<Rightarrow> TLSExtension list" where
  "rand_Shuffle draw 0 exts = exts"
| "rand_Shuffle draw (Suc i) exts =
     rand_Shuffle draw i (shuffleSwap exts (Suc i) (draw (Suc i) mod (Suc i + 1)))"

definition ShuffleChromeTLSExtensions ::
  "(nat \<Rightarrow> nat) \<Rightarrow> TLSExtension list \<Rightarrow> TLSExtension list" where
  "ShuffleChromeTLSExtensions draw exts = rand_Shuffle draw (length exts - 1) exts"

text \<open>\<open>BuildSpecFromJA3\<close>, with the numbers that the shuffle of this call draws.\<close>

definition BuildSpecFromJA3 :: "(nat \<Rightarrow> nat) \<Rightarrow> ParsedJA3 \<Rightarrow> ClientHelloSpec" where
  "BuildSpecFromJA3 draw parsed =
     (let cipherSuites = [0x0a0a] @ CipherSuites parsed;
          extensions = mapExtensionIDs parsed;
          greaseExtensions = [UtlsGREASEExtension] @ extensions @ [UtlsGREASEExtension];
          greaseExtensions' = ShuffleChromeTLSExtensions draw greaseExtensions
      in \<lparr>spec_CipherSuites = cipherSuites, CompressionMethods = [0],
          spec_Extensions = greaseExtensions',
          TLSVersMin =
            (if TLSVersion parsed = 0x0303 then VersionTLS12
             else if TLSVersion parsed = 0x0304 then VersionTLS12
             else VersionTLS12),
          TLSVersMax =
            (if TLSVersion parsed = 0x0303 then VersionTLS13
             else if TLSVersion parsed = 0x0304 then VersionTLS13
             else VersionTLS13)\<rparr>)"

section \<open>Notions the properties are stated with\<close>

text \<open>
  The decimal text of a number, a setting pair \<open>id:value\<close> and the \<open>;\<close>-separated
  settings section of an Akamai text, as the grammar of the fingerprint writes them.
\<close>

definition digit_char :: "nat \<Rightarrow> char" where
  "digit_char d = ''0123456789'' ! d"

fun decimal :: "nat \<Rightarrow> string" where
  "decimal n = (if n < 10 then [digit_char n] else decimal (n div 10) @ [digit_char (n mod 10)])"

declare decimal.simps [simp del]

fun pair_text :: "nat \<times> nat \<Rightarrow> string" where
  "pair_text (i, v) = decimal i @ '':'' @ decimal v"

fun settings_text :: "(nat \<times> nat) list \<Rightarrow> string" where
  "settings_text [] = []"
| "settings_text [p] = pair_text p"
| "settings_text (p # q # ps) = pair_text p @ '';'' @ settings_text (q # ps)"

definition mkSetting :: "nat \<times> nat \<Rightarrow> Setting" where
  "mkSetting p = \<lparr>ID = of_nat (fst p), Val = of_nat (snd p)\<rparr>"

definition toH2 :: "Setting \<Rightarrow> http2_Setting" where
  "toH2 s = \<lparr>h2_ID = ID s, h2_Val = Val s\<rparr>"

text \<open>The parameters of the first SETTINGS frame that reached the connection.\<close>

fun first_settings :: "wire list \<Rightarrow> http2_Setting list option" where
  "first_settings [] = None"
| "first_settings (Sent (WriteSettings params) # ws) = Some params"
| "first_settings (w # ws) = first_settings ws"

text \<open>
  A \<open>:status\<close> value is numeric when \<open>strconv.Atoi\<close> finds digits in it: an optional
  sign and at least one decimal digit, nothing else.
\<close>

definition numeric :: "string \<Rightarrow> bool" where
  "numeric v \<longleftrightarrow>
     (let ds = (if v \<noteq> [] \<and> (hd v = CHR ''-'' \<or> hd v = CHR ''+'') then tl v else v)
      in ds \<noteq> [] \<and> list_all is_digit ds)"

text \<open>The bytes of the DATA frames of a stream, and whether a HEADERS frame is for it.\<close>

fun data_total :: "nat \<Rightarrow> Frame list \<Rightarrow> nat" where
  "data_total sid [] = 0"
| "data_total sid (DataFrame s d e # fs) =
     (if s = sid then length d + data_total sid fs else data_total sid fs)"
| "data_total sid (f # fs) = data_total sid fs"

fun headers_for :: "nat \<Rightarrow> Frame \<Rightarrow> bool" where
  "headers_for sid (HeadersFrame s b e) = (s = sid)"
| "headers_for sid f = False"

section \<open>A worked example\<close>

text \<open>
  The fingerprint \<open>1:65536;2:0;4:6291456;6:262144|15663105|0|m,a,s,p\<close>, a GET request
  with one header and a server that answers with a HEADERS frame that ends the stream.
\<close>

text \<open>
  Every string of the examples is ASCII, so \<open>strings.ToLower\<close> stays on its ASCII path
  there and the function standing for its Unicode path is never applied; the examples
  pass the identity for it.
\<close>

definition example_unicode_lower :: "string \<Rightarrow> string" where
  "example_unicode_lower s = s"

definition example_pairs :: "(nat \<times> nat) list" where
  "example_pairs = [(1, 65536), (2, 0), (4, 6291456), (6, 262144)]"

definition example_fingerprint :: ParsedAkamai where
  "example_fingerprint =
     \<lparr>Settings = [\<lparr>ID = 1, Val = 65536\<rparr>, \<lparr>ID = 2, Val = 0\<rparr>,
                  \<lparr>ID = 4, Val = 6291456\<rparr>, \<lparr>ID = 6, Val = 262144\<rparr>],
      WindowUpdateIncrement = 15663105, PriorityFrames = ''0'',
      HeaderOrder = ['':method'', '':authority'', '':scheme'', '':path'']\<rparr>"

definition example_transport :: CustomH2Transport where
  "example_transport = \<lparr>Fingerprint = example_fingerprint, HeaderOrder_keys = [''user-agent'']\<rparr>"

definition example_request :: "URL Request" where
  "example_request =
     \<lparr>Method = ''GET'', url = \<lparr>Scheme = ''https'', Host = ''example.com'', RequestURI = ''/''\<rparr>,
      Header = [''User-Agent'' \<mapsto> [''probe/1.0''], ''Accept'' \<mapsto> [''*/*'']],
      Body = None, ContentLength = 0\<rparr>"

definition example_conn :: conn where
  "example_conn =
     \<lparr>dial_ok = True, preface_ok = True, flush_ok = True, deadline_ok = True,
      server_frames = [SettingsFrame False, HeadersFrame 1 (Some [('':status'', ''200'')]) True]\<rparr>"

text \<open>The connection-level frames the read loop only acknowledges or ignores.\<close>

fun control_frame :: "Frame \<Rightarrow> bool" where
  "control_frame (SettingsFrame a) = True"
| "control_frame (PingFrame a d) = True"
| "control_frame WindowUpdateFrame = True"
| "control_frame OtherFrame = True"
| "control_frame f = False"

section \<open>Notions for the order of the header fields\<close>

text \<open>
  The pseudo-header section of a header block and what follows it; the fields of one
  key of the ordered list (looked up by its canonical form) and of one key of the
  request header, names in lower case.
\<close>

definition pseudo_fields :: "CustomH2Transport \<Rightarrow> URL Request \<Rightarrow> HeaderField list" where
  "pseudo_fields t req =
     writePseudo (pseudoHeaders req)
       (if HeaderOrder (Fingerprint t) = []
        then ['':method'', '':authority'', '':scheme'', '':path'']
        else HeaderOrder (Fingerprint t)) []"

definition regular_fields ::
  "(string \<Rightarrow> string) \<Rightarrow> CustomH2Transport \<Rightarrow> URL Request \<Rightarrow> string list \<Rightarrow> HeaderField list" where
  "regular_fields unicode_lower t req range_order =
     drop (length (pseudo_fields t req)) (encodeHeaders unicode_lower t req range_order)"

definition ordered_fields :: "(string \<Rightarrow> string) \<Rightarrow> header \<Rightarrow> string \<Rightarrow> HeaderField list" where
  "ordered_fields unicode_lower hdr key =
     (case hdr (CanonicalHeaderKey key) of
        None \<Rightarrow> []
      | Some vals \<Rightarrow> map (Pair (ToLower unicode_lower key)) vals)"

definition ranged_fields :: "(string \<Rightarrow> string) \<Rightarrow> header \<Rightarrow> string \<Rightarrow> HeaderField list" where
  "ranged_fields unicode_lower hdr key =
     (case hdr key of None \<Rightarrow> [] | Some vals \<Rightarrow> map (Pair (ToLower unicode_lower key)) vals)"

definition not_named :: "string list \<Rightarrow> string \<Rightarrow> bool" where
  "not_named H key \<longleftrightarrow> key \<notin> CanonicalHeaderKey ` set H"

text \<open>
  The order in which \<open>buildRequest\<close> first sets the keys of the request header: the
  enabled header entries, then \<open>Cookie\<close>, then the key of the authentication, then
  \<open>Content-Type\<close>.
\<close>

definition insertion_order :: "RequestConfig \<Rightarrow> string list" where
  "insertion_order config =
     (let hs = map (CanonicalHeaderKey \<circ> Key) (filter (\<lambda>h. Enabled h \<and> Key h \<noteq> []) (Headers config));
          cs = (if filter (\<lambda>c. Enabled c \<and> Key c \<noteq> []) (Cookies config) \<noteq> [] then [''Cookie''] else []);
          as = (if AuthType (Auth config) = ''bearer'' \<and> Bearer (Auth config) \<noteq> [] then [''Authorization'']
                else if AuthType (Auth config) = ''basic'' \<and> Basic (Auth config) \<noteq> None then [''Authorization'']
                else case ApiKey (Auth config) of
                       Some k \<Rightarrow>
                         (if AuthType (Auth config) = ''apikey'' \<and> AddTo k = ''header''
                          then [CanonicalHeaderKey (ApiKeyName k)] else [])
                     | None \<Rightarrow> []);
          ct = (if BodyType config = ''json'' \<or> BodyType config = ''urlencoded'' then [''Content-Type''] else [])
      in rev (remdups (rev (hs @ cs @ as @ ct))))"

text \<open>
  The regular fields in the order of the key list \<open>H\<close>, followed by the headers that
  \<open>H\<close> does not name in a given order of the keys.
\<close>

definition fields_in_order ::
  "(string \<Rightarrow> string) \<Rightarrow> header \<Rightarrow> string list \<Rightarrow> string list \<Rightarrow> HeaderField list" where
  "fields_in_order unicode_lower hdr H rest_order =
     concat (map (ordered_fields unicode_lower hdr) H) @
     concat (map (ranged_fields unicode_lower hdr) (filter (not_named H) rest_order))"

definition example_config :: RequestConfig where
  "example_config =
     \<lparr>cfg_Method = ''POST'', cfg_URL = ''https://example.com/api'', Params = [],
      Headers = [\<lparr>PairID = ''1'', Key = ''x-trace'', Value = ''on'', Enabled = True, Note = []\<rparr>],
      Cookies = [], cfg_Body = ''{}'', BodyType = ''json'', FormData = [],
      Auth = \<lparr>AuthType = ''bearer'', Bearer = ''tok'', Basic = None, ApiKey = None\<rparr>,
      FollowRedirects = False, MaxRedirects = 0\<rparr>"

definition example_post :: "URL Request" where
  "example_post =
     \<lparr>Method = ''POST'', url = \<lparr>Scheme = ''https'', Host = ''example.com'', RequestURI = ''/api''\<rparr>,
      Header = requestHeader example_config,
      Body = Some [(''{}'', ReadEOF)], ContentLength = 2\<rparr>"

definition example_post_transport :: CustomH2Transport where
  "example_post_transport =
     \<lparr>Fingerprint = example_fingerprint,
      HeaderOrder_keys = headerOrderLoop (Headers example_config) []\<rparr>"

section \<open>Responses at the size limit\<close>

text \<open>
  A response of the standard transports whose body is one byte longer than the limit,
  and the DATA frames of a body sent in chunks on one stream, the last one ending it.
\<close>

definition oversized_response :: Response where
  "oversized_response =
     \<lparr>StatusCode = 200, Status = ''200 OK'', Proto = ''HTTP/1.1'', ProtoMajor = 1,
      RespHeader = Map.empty,
      RespBody = [(replicate (maxBodySize + 1) CHR ''a'', ReadEOF)],
      RespContentLength = int maxBodySize + 1\<rparr>"

definition data_frames :: "nat \<Rightarrow> bytes list \<Rightarrow> bytes \<Rightarrow> Frame list" where
  "data_frames sid chunks final = map (\<lambda>d. DataFrame sid d False) chunks @ [DataFrame sid final True]"

section \<open>Redirect chains\<close>

text \<open>
  A response is a redirect when its status is 3xx and it has a \<open>Location\<close> header; the
  request that follows it is the GET for the resolved location. \<open>redirect_chain env k i
  req\<close> holds the requests that produced the \<open>Location\<close> headers and the final
  response when, from pass \<open>i\<close> on, the server answers \<open>req\<close> with exactly \<open>k\<close>
  redirects and then with a response that is not one.
\<close>

definition is_redirect :: "Response \<Rightarrow> bool" where
  "is_redirect r \<longleftrightarrow>
     300 \<le> StatusCode r \<and> StatusCode r < 400 \<and> Header_Get (RespHeader r) ''Location'' \<noteq> []"

definition next_request :: "'u http_env \<Rightarrow> 'u Request \<Rightarrow> Response \<Rightarrow> 'u Request option" where
  "next_request env req r =
     (case URL_Parse env (url req) (Header_Get (RespHeader r) ''Location'') of
        None \<Rightarrow> None
      | Some nextURL \<Rightarrow>
          (case NewRequestWithContext env ''GET'' (URL_String env nextURL) of
             Inl err \<Rightarrow> None
           | Inr req' \<Rightarrow> Some req'))"

fun redirect_chain ::
  "'u http_env \<Rightarrow> nat \<Rightarrow> nat \<Rightarrow> 'u Request \<Rightarrow> ('u Request list \<times> Response) option" where
  "redirect_chain env 0 i req =
     (case client_Do env i req of
        Inr r \<Rightarrow> if is_redirect r then None else Some ([], r)
      | Inl err \<Rightarrow> None)"
| "redirect_chain env (Suc k) i req =
     (case client_Do env i req of
        Inr r \<Rightarrow>
          if is_redirect r then
            (case next_request env req r of
               Some req' \<Rightarrow>
                 (case redirect_chain env k (Suc i) req' of
                    Some (reqs, final) \<Rightarrow> Some (req # reqs, final)
                  | None \<Rightarrow> None)
             | None \<Rightarrow> None)
          else None
      | Inl err \<Rightarrow> None)"

text \<open>A server that redirects \<open>/a\<close> to \<open>/b\<close> once and then answers 200.\<close>

definition one_redirect_env :: "string http_env" where
  "one_redirect_env =
     \<lparr>client_Do =
        (\<lambda>i req.
           if url req = ''https://example.com/a'' then
             Inr \<lparr>StatusCode = 302, Status = ''302 Found'', Proto = ''HTTP/1.1'', ProtoMajor = 1,
                  RespHeader = [''Location'' \<mapsto> [''https://example.com/b'']],
                  RespBody = [], RespContentLength = 0\<rparr>
           else
             Inr \<lparr>StatusCode = 200, Status = ''200 OK'', Proto = ''HTTP/1.1'', ProtoMajor = 1,
                  RespHeader = Map.empty, RespBody = [(''done'', ReadEOF)],
                  RespContentLength = 4\<rparr>),
      URL_String = (\<lambda>u. u),
      URL_Parse = (\<lambda>base ref. Some ref),
      url_Parse = (\<lambda>s. Some s)\<rparr>"

definition request_a :: "string Request" where
  "request_a =
     \<lparr>Method = ''GET'', url = ''https://example.com/a'', Header = Map.empty, Body = None,
      ContentLength = 0\<rparr>"

text \<open>The number of passes the loop makes at most: 10 when \<open>maxRedirects\<close> is not positive.\<close>

definition effective_cap :: "int \<Rightarrow> nat" where
  "effective_cap maxRedirects = (if maxRedirects \<le> 0 then 10 else nat maxRedirects)"

section \<open>Trackers as the engine fills them\<close>

text \<open>
  \<open>Send\<close> sets \<open>requestStart\<close> from the clock before the request and \<open>bodyDone\<close>
  after the response is assembled; the first-byte hook, when it fires, reads the clock
  in between. The clock is monotonic and never reads the zero instant, and a request
  lasts less than the largest \<open>Duration\<close> (292 years).
\<close>

definition filled_by_Send :: "timingTracker \<Rightarrow> bool" where
  "filled_by_Send t \<longleftrightarrow>
     0 < requestStart t \<and> requestStart t \<le> bodyDone t \<and>
     bodyDone t - requestStart t \<le> maxDuration \<and>
     (gotFirstByte t = 0 \<or> requestStart t \<le> gotFirstByte t \<and> gotFirstByte t \<le> bodyDone t)"

definition example_tracker :: timingTracker where
  "example_tracker =
     \<lparr>connectStart = 1000100, connectDone = 21000100, tlsStart = 21000200, tlsDone = 61000200,
      gotFirstByte = 100999999, requestStart = 1000000, bodyDone = 102999998\<rparr>"

section \<open>Notions for the urlencoded body\<close>

text \<open>
  The form entries that are sent (enabled, with a key), the value of the last of them
  with a given key, and one \<open>key=value\<close> pair of the body.
\<close>

definition enabled_entries :: "FormDataPair list \<Rightarrow> FormDataPair list" where
  "enabled_entries fds = filter (\<lambda>fd. Enabled fd \<and> Key fd \<noteq> []) fds"

definition last_value :: "FormDataPair list \<Rightarrow> string \<Rightarrow> string" where
  "last_value fds k = Value (last (filter (\<lambda>fd. Key fd = k) (enabled_entries fds)))"

definition form_pair :: "FormDataPair list \<Rightarrow> string \<Rightarrow> string" where
  "form_pair fds k = QueryEscape k @ ''='' @ QueryEscape (last_value fds k)"

definition form_entry :: "string \<Rightarrow> string \<Rightarrow> bool \<Rightarrow> FormDataPair" where
  "form_entry k v e =
     \<lparr>PairID = [], Key = k, Value = v, Enabled = e, Note = [], Type = ''text'', FilePath = []\<rparr>"

definition example_form :: RequestConfig where
  "example_form =
     example_config\<lparr>BodyType := ''urlencoded'',
       FormData := [form_entry ''b'' ''1'' True, form_entry ''a'' ''x y'' True,
                    form_entry ''c'' ''9'' False, form_entry ''b'' ''3'' True]\<rparr>"

section \<open>Notions for the merged timeline\<close>

text \<open>
  What \<open>sort.Slice\<close> promises for a comparison by a key: it returns, with a permutation
  of its input in which the keys do not decrease.
\<close>

definition sort_Slice_contract ::
  "(('a \<Rightarrow> 'a \<Rightarrow> bool) \<Rightarrow> 'a list \<Rightarrow> 'a list option) \<Rightarrow> bool" where
  "sort_Slice_contract sorting \<longleftrightarrow>
     (\<forall>(key :: 'a \<Rightarrow> int) xs.
        \<exists>ys. sorting (\<lambda>a b. key a < key b) xs = Some ys \<and>
             mset ys = mset xs \<and> sorted (map key ys))"

text \<open>The entries of a connection shifted by its start relative to \<open>base\<close>, and all of them in order.\<close>

definition shifted_entries :: "Time \<Rightarrow> loggedConn \<Rightarrow> connEntry list" where
  "shifted_entries base conn =
     map (\<lambda>e. e\<lparr>elapsed := wrap64 (elapsed e + Sub (start conn) base)\<rparr>) (entries conn)"

definition concatenation :: "loggedConn list \<Rightarrow> connEntry list" where
  "concatenation conns = concat (map (shifted_entries (start (hd conns))) conns)"

text \<open>
  \<open>ys\<close> is \<open>xs\<close> stably sorted by \<open>key\<close>: sorted, and the elements of each key are
  in the order they have in \<open>xs\<close>.
\<close>

definition stably_sorted :: "('a \<Rightarrow> int) \<Rightarrow> 'a list \<Rightarrow> 'a list \<Rightarrow> bool" where
  "stably_sorted key xs ys \<longleftrightarrow>
     sorted (map key ys) \<and> (\<forall>k. filter (\<lambda>x. key x = k) ys = filter (\<lambda>x. key x = k) xs)"

text \<open>
  A sorting function within the promise of \<open>sort.Slice\<close>: the insertion sort that puts
  every element behind the elements that are not greater.
\<close>

fun insert_behind :: "('a \<Rightarrow> 'a \<Rightarrow> bool) \<Rightarrow> 'a \<Rightarrow> 'a list \<Rightarrow> 'a list" where
  "insert_behind lt x [] = [x]"
| "insert_behind lt x (y # ys) =
     (if lt x y then x # y # ys else y # insert_behind lt x ys)"

definition insertion_sorting :: "('a \<Rightarrow> 'a \<Rightarrow> bool) \<Rightarrow> 'a list \<Rightarrow> 'a list option" where
  "insertion_sorting lt xs = Some (foldl (\<lambda>sorted_part x. insert_behind lt x sorted_part) [] xs)"

text \<open>
  Two connections of one request (the second opened 5 ms after the first, as on the
  fallback from HTTP/2 to HTTP/1.1) with an entry each at the same adjusted time.
\<close>

definition example_conns :: "loggedConn list" where
  "example_conns =
     [\<lparr>start = 1000000000,
       entries = [\<lparr>elapsed = 2000000, direction = ''send'', data = ''a''\<rparr>,
                  \<lparr>elapsed = 7000000, direction = ''recv'', data = ''b''\<rparr>]\<rparr>,
      \<lparr>start = 1005000000,
       entries = [\<lparr>elapsed = 2000000, direction = ''send'', data = ''c''\<rparr>]\<rparr>]"

text \<open>
  Two connections that are open at the same time. The first logs twelve entries, from
  1 ms to 11 ms after its start, the first two of them (a write and a read) in the same
  tick of the clock. The second starts half a millisecond after the first and logs
  one entry 5 ms later. Times are in nanoseconds.
\<close>

definition overlapping_conns :: "loggedConn list" where
  "overlapping_conns =
     [\<lparr>start = 1000000000,
       entries = [\<lparr>elapsed = 1000000, direction = ''send'', data = ''a''\<rparr>,
                  \<lparr>elapsed = 1000000, direction = ''recv'', data = ''b''\<rparr>,
                  \<lparr>elapsed = 2000000, direction = ''send'', data = ''c''\<rparr>,
                  \<lparr>elapsed = 3000000, direction = ''recv'', data = ''d''\<rparr>,
                  \<lparr>elapsed = 4000000, direction = ''send'', data = ''e''\<rparr>,
                  \<lparr>elapsed = 5000000, direction = ''recv'', data = ''f''\<rparr>,
                  \<lparr>elapsed = 6000000, direction = ''send'', data = ''g''\<rparr>,
                  \<lparr>elapsed = 7000000, direction = ''recv'', data = ''h''\<rparr>,
                  \<lparr>elapsed = 8000000, direction = ''send'', data = ''i''\<rparr>,
                  \<lparr>elapsed = 9000000, direction = ''recv'', data = ''j''\<rparr>,
                  \<lparr>elapsed = 10000000, direction = ''send'', data = ''k''\<rparr>,
                  \<lparr>elapsed = 11000000, direction = ''recv'', data = ''l''\<rparr>]\<rparr>,
      \<lparr>start = 1000500000,
       entries = [\<lparr>elapsed = 5000000, direction = ''send'', data = ''m''\<rparr>]\<rparr>]"

section \<open>Notions for the extension list of a ClientHello\<close>

text \<open>
  The extension id each extension value has on the wire (the IANA code points; the
  GREASE extension takes a GREASE id) and the removal of the GREASE extensions that
  the builder adds.
\<close>

fun extension_id :: "TLSExtension \<Rightarrow> 16 word" where
  "extension_id SNIExtension = 0"
| "extension_id StatusRequestExtension = 5"
| "extension_id (SupportedCurvesExtension cs) = 10"
| "extension_id (SupportedPointsExtension ps) = 11"
| "extension_id (SignatureAlgorithmsExtension ss) = 13"
| "extension_id (ALPNExtension ps) = 16"
| "extension_id StatusRequestV2Extension = 17"
| "extension_id SCTExtension = 18"
| "extension_id UtlsPaddingExtension = 21"
| "extension_id ExtendedMasterSecretExtension = 23"
| "extension_id (UtlsCompressCertExtension cs) = 27"
| "extension_id SessionTicketExtension = 35"
| "extension_id (SupportedVersionsExtension vs) = 43"
| "extension_id (PSKKeyExchangeModesExtension ms) = 45"
| "extension_id (KeyShareExtension ks) = 51"
| "extension_id RenegotiationInfoExtension = 65281"
| "extension_id (ApplicationSettingsExtension ps) = 17513"
| "extension_id (ApplicationSettingsExtensionNew ps) = 17613"
| "extension_id BoringGREASEECH = 65037"
| "extension_id (GenericExtension i) = i"
| "extension_id UtlsGREASEExtension = 0x0a0a"

definition without_GREASE :: "TLSExtension list \<Rightarrow> TLSExtension list" where
  "without_GREASE exts = filter (\<lambda>e. e \<noteq> UtlsGREASEExtension) exts"

text \<open>
  The table of typed extensions, by code point, with the payload of each: supported
  groups are a GREASE group and the curves of the JA3 text (X25519, P-256 and P-384
  when it has none), point formats are those of the text (uncompressed when it has
  none), the signature algorithms are the eight default ones, the key shares are a
  GREASE share of one byte and X25519, with X25519MLKEM768 between them when the
  curves of the text list it. An id that the table does not have gives the opaque
  placeholder with that id.
\<close>

definition fixed_table :: "ParsedJA3 \<Rightarrow> (16 word \<times> TLSExtension) list" where
  "fixed_table parsed =
     [(0, SNIExtension),
      (5, StatusRequestExtension),
      (10, SupportedCurvesExtension
             (2570 # (if Curves parsed = [] then [29, 23, 24] else Curves parsed))),
      (11, SupportedPointsExtension
             (if PointFormats parsed = [] then [0] else PointFormats parsed)),
      (13, SignatureAlgorithmsExtension [1027, 2052, 1025, 1283, 2053, 1281, 2054, 1537]),
      (16, ALPNExtension [''h2'', ''http/1.1'']),
      (17, StatusRequestV2Extension),
      (18, SCTExtension),
      (21, UtlsPaddingExtension),
      (23, ExtendedMasterSecretExtension),
      (27, UtlsCompressCertExtension [2]),
      (35, SessionTicketExtension),
      (43, SupportedVersionsExtension [2570, 772, 771]),
      (45, PSKKeyExchangeModesExtension [1]),
      (51, KeyShareExtension
             ([\<lparr>Group = 2570, Data = [CHR 0x00]\<rparr>] @
              (if 4588 \<in> set (Curves parsed) then [\<lparr>Group = 4588, Data = []\<rparr>] else []) @
              [\<lparr>Group = 29, Data = []\<rparr>])),
      (65281, RenegotiationInfoExtension),
      (17513, ApplicationSettingsExtension [''h2'']),
      (17613, ApplicationSettingsExtensionNew [''h2'']),
      (65037, BoringGREASEECH)]"

definition table_extension :: "ParsedJA3 \<Rightarrow> 16 word \<Rightarrow> TLSExtension" where
  "table_extension parsed extID =
     (case map_of (fixed_table parsed) extID of
        Some ext \<Rightarrow> ext
      | None \<Rightarrow> GenericExtension extID)"

text \<open>
  Undoing a shuffle whose draws are known: the same swaps in the opposite order, from
  \<open>i = 1\<close> up to \<open>n - 1\<close>.
\<close>

fun undo_swaps :: "(nat \<Rightarrow> nat) \<Rightarrow> nat \<Rightarrow> TLSExtension list \<Rightarrow> TLSExtension list" where
  "undo_swaps draw 0 exts = exts"
| "undo_swaps draw (Suc i) exts =
     shuffleSwap (undo_swaps draw i exts) (Suc i) (draw (Suc i) mod (Suc i + 1))"

definition undo_shuffle :: "(nat \<Rightarrow> nat) \<Rightarrow> TLSExtension list \<Rightarrow> TLSExtension list" where
  "undo_shuffle draw exts = undo_swaps draw (length exts - 1) exts"

text \<open>
  Runs of the generator: one that draws \<open>i\<close> for every \<open>i\<close>, so that no swap moves
  anything; one that draws 1 for \<open>i = 2\<close>; one that draws \<open>i - 1\<close> for every \<open>i\<close>.
\<close>

definition draw_same :: "nat \<Rightarrow> nat" where
  "draw_same i = i"

definition draw_one_swap :: "nat \<Rightarrow> nat" where
  "draw_one_swap i = (if i = 2 then 1 else i)"

definition draw_neighbour :: "nat \<Rightarrow> nat" where
  "draw_neighbour i = i - 1"

definition example_ja3 :: string where
  "example_ja3 = ''771,4865-4866,0-23-65281-10-11-35-16-13-43-45-51-41,29-23-24,0''"

text \<open>The \<open>-\<close>-separated decimal text of a list of ids, as a JA3 text writes a list.\<close>

fun dash_text :: "nat list \<Rightarrow> string" where
  "dash_text [] = []"
| "dash_text [n] = decimal n"
| "dash_text (n # m # ns) = decimal n @ ''-'' @ dash_text (m # ns)"

definition example_parsed :: ParsedJA3 where
  "example_parsed =
     \<lparr>TLSVersion = 771, CipherSuites = [4865, 4866],
      Extensions = [0, 23, 65281, 10, 11, 35, 16, 13, 43, 45, 51, 41],
      Curves = [29, 23, 24], PointFormats = [0]\<rparr>"

text \<open>Two JA3 texts with the same two extensions in opposite orders, parsed.\<close>

definition parsed_0_23 :: ParsedJA3 where
  "parsed_0_23 =
     \<lparr>TLSVersion = 771, CipherSuites = [4865], Extensions = [0, 23],
      Curves = [], PointFormats = []\<rparr>"

definition parsed_23_0 :: ParsedJA3 where
  "parsed_23_0 =
     \<lparr>TLSVersion = 771, CipherSuites = [4865], Extensions = [23, 0],
      Curves = [], PointFormats = []\<rparr>"

section \<open>Parsing the settings of an Akamai text\<close>

lemma Split_not_Nil [simp]: "Split c s \<noteq> []"
  by (induction s) (auto split: list.splits)

lemma Split_no_sep: "c \<notin> set s \<Longrightarrow> Split c s = [s]"
  by (induction s) auto

lemma Split_append_sep: "c \<notin> set a \<Longrightarrow> Split c (a @ c # b) = a # Split c b"
  by (induction a) (auto split: list.splits)

lemma digit_char_props: "d < 10 \<Longrightarrow> is_digit (digit_char d) \<and> digit_val (digit_char d) = d"
proof -
  assume "d < 10"
  then have "d \<in> {0,1,2,3,4,5,6,7,8,9}" by auto
  then show ?thesis
    by (auto simp: digit_char_def is_digit_def digit_val_def)
qed

lemma decimal_digits: "list_all is_digit (decimal n)"
proof (induction n rule: decimal.induct)
  case (1 n)
  then show ?case
    by (subst decimal.simps) (auto simp: digit_char_props)
qed

lemma decimal_not_Nil: "decimal n \<noteq> []"
  by (subst decimal.simps) auto

lemma decimal_value_snoc: "decimal_value (s @ [c]) = 10 * decimal_value s + digit_val c"
  by (simp add: decimal_value_def)

lemma decimal_value_decimal: "decimal_value (decimal n) = n"
proof (induction n rule: decimal.induct)
  case (1 n)
  show ?case
  proof (cases "n < 10")
    case True
    then show ?thesis
      by (subst decimal.simps) (simp add: decimal_value_def digit_char_props)
  next
    case False
    then have "decimal_value (decimal n) = 10 * decimal_value (decimal (n div 10)) + digit_val (digit_char (n mod 10))"
      by (subst decimal.simps) (simp add: decimal_value_snoc)
    also have "\<dots> = 10 * (n div 10) + n mod 10"
      using 1 False by (simp add: digit_char_props)
    finally show ?thesis by simp
  qed
qed

lemma ParseUint_decimal: "n < 2 ^ b \<Longrightarrow> ParseUint (decimal n) b = Some n"
  by (simp add: ParseUint_def decimal_not_Nil decimal_digits decimal_value_decimal)

lemma digits_no_sep: "list_all is_digit s \<Longrightarrow> \<not> is_digit c \<Longrightarrow> c \<notin> set s"
  by (auto simp: list_all_iff)

lemma sep_not_digit: "\<not> is_digit CHR '':''" "\<not> is_digit CHR '';''" "\<not> is_digit CHR ''|''"
  by (simp_all add: is_digit_def)

lemma decimal_no_sep:
  "CHR '':'' \<notin> set (decimal n)" "CHR '';'' \<notin> set (decimal n)" "CHR ''|'' \<notin> set (decimal n)"
  using digits_no_sep [OF decimal_digits] sep_not_digit by blast+

lemma SplitN2_at_first: "c \<notin> set a \<Longrightarrow> SplitN2 c (a @ c # b) = [a, b]"
  by (induction a) (auto simp: SplitN2_def)

lemma SplitN2_pair_text: "SplitN2 CHR '':'' (pair_text (i, v)) = [decimal i, decimal v]"
  by (simp add: SplitN2_at_first decimal_no_sep)

lemma parseSettings_pair_texts:
  "\<forall>p \<in> set ps. fst p < 2 ^ 16 \<and> snd p < 2 ^ 32 \<Longrightarrow>
   parseSettings (map pair_text ps) acc = acc @ map mkSetting ps"
proof (induction ps arbitrary: acc)
  case Nil
  then show ?case by simp
next
  case (Cons p ps)
  obtain i v where p: "p = (i, v)" by (cases p)
  with Cons.prems have "i < 2 ^ 16" "v < 2 ^ 32" by auto
  then have "parseSettings (map pair_text (p # ps)) acc =
      parseSettings (map pair_text ps) (acc @ [mkSetting p])"
    by (simp add: p SplitN2_pair_text ParseUint_decimal mkSetting_def del: pair_text.simps)
  with Cons show ?case by simp
qed

lemma pair_text_no_sep: "CHR '';'' \<notin> set (pair_text p)" "CHR ''|'' \<notin> set (pair_text p)"
  by (cases p; simp add: decimal_no_sep)+

lemma settings_text_no_bar: "CHR ''|'' \<notin> set (settings_text ps)"
  by (induction ps rule: settings_text.induct) (simp_all add: pair_text_no_sep del: pair_text.simps)

lemma Split_settings_text: "ps \<noteq> [] \<Longrightarrow> Split CHR '';'' (settings_text ps) = map pair_text ps"
proof (induction ps rule: settings_text.induct)
  case 1
  then show ?case by simp
next
  case (2 p)
  then show ?case by (simp add: Split_no_sep pair_text_no_sep del: pair_text.simps)
next
  case (3 p q ps)
  then show ?case
    by (simp add: Split_append_sep pair_text_no_sep del: pair_text.simps)
qed

lemma settings_text_Nil_iff: "settings_text ps = [] \<longleftrightarrow> ps = []"
  by (induction ps rule: settings_text.induct) (auto simp: decimal_not_Nil)

lemma Split_bar_head:
  "tail = [] \<or> hd tail = CHR ''|'' \<Longrightarrow> Split CHR ''|'' (settings_text ps @ tail) ! 0 = settings_text ps"
proof (cases tail)
  case Nil
  then show ?thesis by (simp add: Split_no_sep settings_text_no_bar)
next
  case (Cons x xs)
  assume "tail = [] \<or> hd tail = CHR ''|''"
  with Cons have "x = CHR ''|''" by simp
  with Cons show ?thesis by (simp add: Split_append_sep settings_text_no_bar)
qed

lemma ParseAkamaiText_settings_text:
  assumes "\<forall>p \<in> set ps. fst p < 2 ^ 16 \<and> snd p < 2 ^ 32"
    and "tail = [] \<or> hd tail = CHR ''|''"
    and "settings_text ps @ tail \<noteq> []"
  shows "\<exists>a. ParseAkamaiText (settings_text ps @ tail) = Inr a \<and> Settings a = map mkSetting ps"
proof (cases "ps = []")
  case True
  then show ?thesis using assms
    by (simp add: ParseAkamaiText_def Let_def Split_bar_head [where ps = "[]", simplified])
next
  case False
  then have "settings_text ps \<noteq> []" by (simp add: settings_text_Nil_iff)
  then show ?thesis using assms False
    by (simp add: ParseAkamaiText_def Let_def Split_bar_head Split_settings_text
        parseSettings_pair_texts)
qed


lemma fill_by_index:
  "length pre = n \<Longrightarrow>
   fold (\<lambda>(i, s) settings. settings[i := f s]) (enumerate n xs) (pre @ replicate (length xs) z)
     = pre @ map f xs"
proof (induction xs arbitrary: pre n)
  case Nil
  then show ?case by simp
next
  case (Cons x xs)
  have "(pre @ z # replicate (length xs) z)[n := f x] = (pre @ [f x]) @ replicate (length xs) z"
    using Cons.prems by (simp add: list_update_append)
  moreover have "length (pre @ [f x]) = Suc n" using Cons.prems by simp
  ultimately show ?case using Cons.IH [of "pre @ [f x]" "Suc n"] by simp
qed

lemma copySettings_map: "copySettings ss = map toH2 ss"
  using fill_by_index [of "[]" 0 "\<lambda>s. \<lparr>h2_ID = ID s, h2_Val = Val s\<rparr>" ss]
  by (simp add: copySettings_def toH2_def [abs_def])

lemma writeBody_extends: "writeBody reads buf = Inr out \<Longrightarrow> \<exists>others. out = buf @ others"
proof (induction reads buf rule: writeBody.induct)
  case (1 buf)
  then show ?case by auto
next
  case (2 d readErr reads buf)
  then show ?case
    by (cases readErr) (auto split: if_splits)
qed

lemma bufferFrames_starts_with_settings:
  assumes "bufferFrames unicode_lower t req ro = Inr buf"
  shows "\<exists>others. buf = WriteSettings (map toH2 (Settings (Fingerprint t))) # others"
proof -
  let ?s = "WriteSettings (map toH2 (Settings (Fingerprint t)))"
  from assms show ?thesis
    by (auto simp: bufferFrames_def Let_def copySettings_map split: if_splits option.splits
        dest!: writeBody_extends)
qed

lemma RoundTrip_flushed:
  assumes "dial_ok c" "preface_ok c" "flush_ok c" "bufferFrames unicode_lower t req ro = Inr buf"
  shows "\<exists>others. snd (RoundTrip unicode_lower t req ro c) = Preface # map Sent buf @ others"
  using assms by (auto simp: RoundTrip_def split: prod.splits)

section \<open>The first SETTINGS frame\<close>

lemma first_settings_flushed:
  "first_settings (Preface # map Sent (WriteSettings ps # others) @ rest) = Some ps"
  by simp

lemma unat_setting_pair:
  assumes "fst p < 2 ^ 16" "snd p < 2 ^ 32"
  shows "(unat (h2_ID (toH2 (mkSetting p))), unat (h2_Val (toH2 (mkSetting p)))) = p"
proof -
  have "unat (word_of_nat (fst p) :: 16 word) = fst p"
    using assms(1) by (simp add: unat_of_nat)
  moreover have "unat (word_of_nat (snd p) :: 32 word) = snd p"
    using assms(2) by (simp add: unat_of_nat)
  ultimately show ?thesis by (simp add: toH2_def mkSetting_def)
qed

text \<open>
  C1. Whenever the transport reaches the flush of its write buffer, the first SETTINGS
  frame on the connection carries exactly the settings of the fingerprint: as many
  parameters, the same ids and values, in the same order. If the fingerprint was parsed
  from a text whose settings section lists the pairs \<open>ps\<close>, these parameters are
  \<open>ps\<close>, in the order of the text.
\<close>

theorem first_settings_frame_follows_akamai:
  assumes "dial_ok c" and "preface_ok c" and "flush_ok c"
    and "bufferFrames unicode_lower t req range_order = Inr buf"
  shows "\<exists>params.
           first_settings (snd (RoundTrip unicode_lower t req range_order c)) = Some params \<and>
           length params = length (Settings (Fingerprint t)) \<and>
           map h2_ID params = map ID (Settings (Fingerprint t)) \<and>
           map h2_Val params = map Val (Settings (Fingerprint t)) \<and>
           (\<forall>ps tail.
              (\<forall>p \<in> set ps. fst p < 2 ^ 16 \<and> snd p < 2 ^ 32) \<and>
              (tail = [] \<or> hd tail = CHR ''|'') \<and>
              ParseAkamaiText (settings_text ps @ tail) = Inr (Fingerprint t) \<longrightarrow>
              map (\<lambda>s. (unat (h2_ID s), unat (h2_Val s))) params = ps)"
proof -
  let ?params = "map toH2 (Settings (Fingerprint t))"
  obtain others where buf: "buf = WriteSettings ?params # others"
    using bufferFrames_starts_with_settings [OF assms(4)] by blast
  obtain rest where "snd (RoundTrip unicode_lower t req range_order c) = Preface # map Sent buf @ rest"
    using RoundTrip_flushed [OF assms] by blast
  then have first: "first_settings (snd (RoundTrip unicode_lower t req range_order c)) = Some ?params"
    by (simp add: buf)
  have ids: "map h2_ID ?params = map ID (Settings (Fingerprint t))"
    and vals: "map h2_Val ?params = map Val (Settings (Fingerprint t))"
    by (simp_all add: toH2_def)
  have from_text: "map (\<lambda>s. (unat (h2_ID s), unat (h2_Val s))) ?params = ps"
    if wf: "\<forall>p \<in> set ps. fst p < 2 ^ 16 \<and> snd p < 2 ^ 32"
      and tail: "tail = [] \<or> hd tail = CHR ''|''"
      and parsed: "ParseAkamaiText (settings_text ps @ tail) = Inr (Fingerprint t)"
    for ps tail
  proof -
    from parsed have "settings_text ps @ tail \<noteq> []"
      by (auto simp: ParseAkamaiText_def)
    from ParseAkamaiText_settings_text [OF wf tail this] parsed
    have "Settings (Fingerprint t) = map mkSetting ps" by auto
    then have "map (\<lambda>s. (unat (h2_ID s), unat (h2_Val s))) ?params =
        map (\<lambda>p. (unat (h2_ID (toH2 (mkSetting p))), unat (h2_Val (toH2 (mkSetting p))))) ps"
      by (simp add: comp_def)
    also have "\<dots> = map (\<lambda>p. p) ps"
      using wf by (intro map_cong refl unat_setting_pair) auto
    finally show ?thesis by simp
  qed
  show ?thesis
    using first ids vals from_text by (intro exI [of _ ?params]) auto
qed


lemma example_text_parses:
  "ParseAkamaiText (settings_text example_pairs @ ''|15663105|0|m,a,s,p'') = Inr example_fingerprint"
  by (simp add: example_pairs_def example_fingerprint_def decimal.simps digit_char_def
      ParseAkamaiText_def Let_def SplitN2_def ParseUint_def is_digit_def decimal_value_def
      digit_val_def TrimSpace_def space_tokens_def letterMap_def)

theorem first_settings_frame_follows_akamai_witness:
  "\<exists>params.
     first_settings (snd (RoundTrip example_unicode_lower example_transport example_request [''Accept'', ''User-Agent'']
        example_conn)) = Some params \<and>
     map (\<lambda>s. (unat (h2_ID s), unat (h2_Val s))) params =
       [(1, 65536), (2, 0), (4, 6291456), (6, 262144)]"
proof -
  have flushed: "dial_ok example_conn" "preface_ok example_conn" "flush_ok example_conn"
    by (simp_all add: example_conn_def)
  have "\<exists>buf. bufferFrames example_unicode_lower example_transport example_request [''Accept'', ''User-Agent''] = Inr buf"
    by (simp add: bufferFrames_def Let_def example_request_def)
  then obtain buf where
    "bufferFrames example_unicode_lower example_transport example_request [''Accept'', ''User-Agent''] = Inr buf" ..
  from first_settings_frame_follows_akamai [OF flushed this]
  obtain params where
    first: "first_settings (snd (RoundTrip example_unicode_lower example_transport example_request
              [''Accept'', ''User-Agent''] example_conn)) = Some params"
    and from_text: "\<And>ps tail.
        (\<forall>p \<in> set ps. fst p < 2 ^ 16 \<and> snd p < 2 ^ 32) \<Longrightarrow>
        tail = [] \<or> hd tail = CHR ''|'' \<Longrightarrow>
        ParseAkamaiText (settings_text ps @ tail) = Inr (Fingerprint example_transport) \<Longrightarrow>
        map (\<lambda>s. (unat (h2_ID s), unat (h2_Val s))) params = ps"
    by blast
  have "map (\<lambda>s. (unat (h2_ID s), unat (h2_Val s))) params = example_pairs"
  proof (rule from_text [where tail = "''|15663105|0|m,a,s,p''"])
    show "\<forall>p \<in> set example_pairs. fst p < 2 ^ 16 \<and> snd p < 2 ^ 32"
      by (simp add: example_pairs_def)
    show "''|15663105|0|m,a,s,p'' = [] \<or> hd ''|15663105|0|m,a,s,p'' = CHR ''|''"
      by simp
    show "ParseAkamaiText (settings_text example_pairs @ ''|15663105|0|m,a,s,p'') =
        Inr (Fingerprint example_transport)"
      by (simp add: example_text_parses example_transport_def)
  qed
  with first show ?thesis by (auto simp: example_pairs_def)
qed

section \<open>Malformed Akamai texts\<close>

lemma ParseAkamaiText_error_iff: "(\<exists>e. ParseAkamaiText akamai = Inl e) \<longleftrightarrow> akamai = []"
  by (simp add: ParseAkamaiText_def Let_def)

text \<open>
  C6, as amended. A non-empty Akamai text is never rejected: \<open>ParseAkamaiText\<close> returns
  a fingerprint for it (its only error is the one for the empty text), and with the
  preset \<open>custom\<close> \<open>buildTransport\<close> returns the custom HTTP/2 transport with that
  fingerprint. No error about the Akamai text reaches the caller.
\<close>

theorem nonempty_akamai_text_is_accepted:
  assumes "Preset tc = ''custom''" and "CustomAkamai tc \<noteq> []"
  shows "\<exists>a. ParseAkamaiText (CustomAkamai tc) = Inr a \<and>
             buildTransport (Some tc) config =
               CustomH2 \<lparr>Fingerprint = a,
                         HeaderOrder_keys =
                           (case config of None \<Rightarrow> []
                            | Some cfg \<Rightarrow> headerOrderLoop (Headers cfg) [])\<rparr>"
proof -
  from assms(2) obtain a where a: "ParseAkamaiText (CustomAkamai tc) = Inr a"
    using ParseAkamaiText_error_iff [of "CustomAkamai tc"]
    by (cases "ParseAkamaiText (CustomAkamai tc)") auto
  with assms show ?thesis
    by (simp add: buildTransport_def)
qed

theorem nonempty_akamai_text_is_accepted_witness:
  "\<exists>a. ParseAkamaiText ''1:x;y|abc'' = Inr a \<and>
       buildTransport
         (Some \<lparr>Preset = ''custom'', CustomJA3 = [], CustomJA4 = [], CustomAkamai = ''1:x;y|abc''\<rparr>)
         None = CustomH2 \<lparr>Fingerprint = a, HeaderOrder_keys = []\<rparr>"
  using nonempty_akamai_text_is_accepted
    [of "\<lparr>Preset = ''custom'', CustomJA3 = [], CustomJA4 = [], CustomAkamai = ''1:x;y|abc''\<rparr>" None]
  by simp

theorem malformed_akamai_text_counterexample:
  "ParseAkamaiText ''1:x;y|abc'' =
     Inr \<lparr>Settings = [], WindowUpdateIncrement = 0, PriorityFrames = [], HeaderOrder = []\<rparr> \<and>
   buildTransport
     (Some \<lparr>Preset = ''custom'', CustomJA3 = [], CustomJA4 = [], CustomAkamai = ''1:x;y|abc''\<rparr>)
     None =
     CustomH2 \<lparr>Fingerprint =
                 \<lparr>Settings = [], WindowUpdateIncrement = 0, PriorityFrames = [],
                  HeaderOrder = []\<rparr>,
               HeaderOrder_keys = []\<rparr> \<and>
   fst (RoundTrip example_unicode_lower
          \<lparr>Fingerprint =
             \<lparr>Settings = [], WindowUpdateIncrement = 0, PriorityFrames = [], HeaderOrder = []\<rparr>,
           HeaderOrder_keys = []\<rparr>
          example_request [''Accept'', ''User-Agent''] example_conn) =
     Inr \<lparr>StatusCode = 200, Status = ''200 OK'', Proto = ''HTTP/2.0'', ProtoMajor = 2,
          RespHeader = Map.empty, RespBody = [([], ReadEOF)], RespContentLength = 0\<rparr>"
proof -
  have parsed: "ParseAkamaiText ''1:x;y|abc'' =
     Inr \<lparr>Settings = [], WindowUpdateIncrement = 0, PriorityFrames = [], HeaderOrder = []\<rparr>"
    by (simp add: ParseAkamaiText_def Let_def SplitN2_def ParseUint_def
        is_digit_def decimal_value_def digit_val_def)
  have answered: "fst (RoundTrip example_unicode_lower
          \<lparr>Fingerprint =
             \<lparr>Settings = [], WindowUpdateIncrement = 0, PriorityFrames = [], HeaderOrder = []\<rparr>,
           HeaderOrder_keys = []\<rparr>
          example_request [''Accept'', ''User-Agent''] example_conn) =
     Inr \<lparr>StatusCode = 200, Status = ''200 OK'', Proto = ''HTTP/2.0'', ProtoMajor = 2,
          RespHeader = Map.empty, RespBody = [([], ReadEOF)], RespContentLength = 0\<rparr>"
    by (simp add: RoundTrip_def bufferFrames_def Let_def example_request_def example_conn_def
        readResponse_def initial_read_state_def finish_def Atoi_def is_digit_def
        decimal_value_def digit_val_def StatusText_def status_texts_def)
  from parsed answered show ?thesis
    by (simp add: buildTransport_def)
qed

section \<open>The status line of an HTTP/2 response\<close>

lemma Atoi_not_numeric: "\<not> numeric v \<Longrightarrow> Atoi v = (0, True)"
  by (auto simp: numeric_def Atoi_def Let_def split: if_splits)

lemma StatusText_0: "StatusText 0 = []"
  by (simp add: StatusText_def status_texts_def)

lemma applyFields_no_status:
  "\<forall>hf \<in> set hs. fst hf \<noteq> '':status'' \<Longrightarrow>
   StatusCode (applyFields hs r) = StatusCode r \<and> Status (applyFields hs r) = Status r"
  by (induction hs r rule: applyFields.induct) auto

lemma applyFields_one_status:
  "filter (\<lambda>hf. fst hf = '':status'') hs = [('':status'', v)] \<Longrightarrow>
   StatusCode (applyFields hs r) = fst (Atoi v) \<and>
   Status (applyFields hs r) = v @ '' '' @ StatusText (fst (Atoi v))"
proof (induction hs r rule: applyFields.induct)
  case (1 r)
  then show ?case by simp
next
  case (2 name val hfs r)
  show ?case
  proof (cases "name = '':status''")
    case True
    with 2(3) have v: "val = v" and rest: "filter (\<lambda>hf. fst hf = '':status'') hfs = []"
      by auto
    from rest have "\<forall>hf \<in> set hfs. fst hf \<noteq> '':status''"
      by (simp add: filter_empty_conv)
    from applyFields_no_status [OF this] True v show ?thesis
      by (simp add: Let_def)
  next
    case False
    with 2 show ?thesis by simp
  qed
qed

lemma finish_status:
  "finish st b = (Inr ((st_resp st)\<lparr>RespBody := [(bodyBuf st, ReadEOF)],
      RespContentLength := (if b then int (length (bodyBuf st)) else RespContentLength (st_resp st))\<rparr>),
    replies st)"
  by (simp add: finish_def)

lemma readLoop_after_headers:
  assumes "headersReceived st"
    and "\<forall>f \<in> set fs. \<not> headers_for sid f"
    and "length (bodyBuf st) + data_total sid fs \<le> maxResponseBodySize"
  shows "\<exists>r w. readLoop sid fs st = (Inr r, w) \<and>
           StatusCode r = StatusCode (st_resp st) \<and> Status r = Status (st_resp st)"
  using assms
proof (induction fs arbitrary: st)
  case Nil
  then show ?case by (simp add: finish_def)
next
  case (Cons f fs)
  show ?case
  proof (cases f)
    case (HeadersFrame s b e)
    with Cons.prems have "s \<noteq> sid" by simp
    with HeadersFrame Cons show ?thesis by simp
  next
    case (DataFrame s d e)
    show ?thesis
    proof (cases "s = sid")
      case True
      let ?st' = "st\<lparr>bodyBuf := bodyBuf st @ d,
                       replies :=
                         (if length d > 0
                          then replies st @ [WriteWindowUpdate 0 (of_nat (length d)),
                                             WriteWindowUpdate sid (of_nat (length d))]
                          else replies st)\<rparr>"
      from Cons.prems DataFrame True
      have fits: "\<not> length (bodyBuf st) + length d > maxResponseBodySize" by simp
      have "\<exists>r w. readLoop sid fs ?st' = (Inr r, w) \<and>
           StatusCode r = StatusCode (st_resp ?st') \<and> Status r = Status (st_resp ?st')"
        using Cons.prems DataFrame True by (intro Cons.IH) auto
      with fits DataFrame True show ?thesis
        by (cases e) (auto simp: Let_def finish_def)
    next
      case False
      with DataFrame Cons show ?thesis by simp
    qed
  next
    case (SettingsFrame a)
    with Cons.prems
    have "\<exists>r w. readLoop sid fs (if \<not> a then st\<lparr>replies := replies st @ [WriteSettingsAck]\<rparr> else st) = (Inr r, w) \<and>
           StatusCode r = StatusCode (st_resp (if \<not> a then st\<lparr>replies := replies st @ [WriteSettingsAck]\<rparr> else st)) \<and>
           Status r = Status (st_resp (if \<not> a then st\<lparr>replies := replies st @ [WriteSettingsAck]\<rparr> else st))"
      by (intro Cons.IH) auto
    with SettingsFrame show ?thesis by (cases a) auto
  next
    case (PingFrame a d)
    with Cons.prems
    have "\<exists>r w. readLoop sid fs (if \<not> a then st\<lparr>replies := replies st @ [WritePing True d]\<rparr> else st) = (Inr r, w) \<and>
           StatusCode r = StatusCode (st_resp (if \<not> a then st\<lparr>replies := replies st @ [WritePing True d]\<rparr> else st)) \<and>
           Status r = Status (st_resp (if \<not> a then st\<lparr>replies := replies st @ [WritePing True d]\<rparr> else st))"
      by (intro Cons.IH) auto
    with PingFrame show ?thesis by (cases a) auto
  next
    case WindowUpdateFrame
    with Cons show ?thesis by simp
  next
    case (GoAwayFrame c l)
    with Cons.prems show ?thesis by (simp add: finish_def)
  next
    case (RSTStreamFrame s c)
    with Cons show ?thesis by (simp add: finish_def)
  next
    case OtherFrame
    with Cons show ?thesis by simp
  qed
qed

lemma readLoop_control_frames:
  "\<forall>f \<in> set skip. control_frame f \<Longrightarrow>
   \<exists>st'. readLoop sid (skip @ rest) st = readLoop sid rest st' \<and> st_resp st' = st_resp st \<and>
         bodyBuf st' = bodyBuf st \<and> headersReceived st' = headersReceived st"
proof (induction skip arbitrary: st)
  case Nil
  then show ?case by auto
next
  case (Cons f skip)
  then have skip: "\<forall>f \<in> set skip. control_frame f" and f: "control_frame f" by auto
  from f show ?case
  proof (cases f)
    case (SettingsFrame a)
    from Cons.IH [OF skip, of "if \<not> a then st\<lparr>replies := replies st @ [WriteSettingsAck]\<rparr> else st"]
    show ?thesis using SettingsFrame by (cases a) auto
  next
    case (PingFrame a d)
    from Cons.IH [OF skip, of "if \<not> a then st\<lparr>replies := replies st @ [WritePing True d]\<rparr> else st"]
    show ?thesis using PingFrame by (cases a) auto
  next
    case WindowUpdateFrame
    with Cons.IH [OF skip, of st] show ?thesis by simp
  next
    case OtherFrame
    with Cons.IH [OF skip, of st] show ?thesis by simp
  qed simp_all
qed

lemma readLoop_response_headers:
  assumes "filter (\<lambda>hf. fst hf = '':status'') headers = [('':status'', v)]"
    and "\<forall>f \<in> set fs. \<not> headers_for sid f"
    and "length (bodyBuf st) + data_total sid fs \<le> maxResponseBodySize"
  shows "\<exists>r w. readLoop sid (HeadersFrame sid (Some headers) endStream # fs) st = (Inr r, w) \<and>
           StatusCode r = fst (Atoi v) \<and> Status r = v @ '' '' @ StatusText (fst (Atoi v))"
proof -
  let ?st' = "st\<lparr>st_resp := applyFields headers (st_resp st), headersReceived := True\<rparr>"
  note status = applyFields_one_status [OF assms(1), of "st_resp st"]
  show ?thesis
  proof (cases endStream)
    case True
    with status show ?thesis by (simp add: Let_def finish_def)
  next
    case False
    have "\<exists>r w. readLoop sid fs ?st' = (Inr r, w) \<and>
        StatusCode r = StatusCode (st_resp ?st') \<and> Status r = Status (st_resp ?st')"
      using assms(2,3) by (intro readLoop_after_headers) auto
    with status False show ?thesis by (auto simp: Let_def)
  qed
qed

text \<open>
  C10. On the custom HTTP/2 path a response whose \<open>:status\<close> value is not numeric does
  not fail the round trip. Let the server send control frames, then the HEADERS frame of
  stream 1 with the single \<open>:status\<close> field \<open>v\<close>, then frames without further
  HEADERS for stream 1 and with at most 100 MiB of DATA: \<open>RoundTrip\<close> returns a
  response, its status code is 0 and its status phrase is \<open>v\<close> followed by a space
  (the reason phrase of code 0 is empty).
\<close>

theorem non_numeric_status_is_accepted:
  assumes "\<not> numeric v"
    and "dial_ok c" and "preface_ok c" and "flush_ok c" and "deadline_ok c"
    and "bufferFrames unicode_lower t req range_order = Inr buf"
    and "server_frames c = skip @ HeadersFrame 1 (Some headers) endStream # fs"
    and "\<forall>f \<in> set skip. control_frame f"
    and "filter (\<lambda>hf. fst hf = '':status'') headers = [('':status'', v)]"
    and "\<forall>f \<in> set fs. \<not> headers_for 1 f"
    and "data_total 1 fs \<le> maxResponseBodySize"
  shows "\<exists>r. fst (RoundTrip unicode_lower t req range_order c) = Inr r \<and>
             StatusCode r = 0 \<and> Status r = v @ '' ''"
proof -
  obtain st' where st': "readLoop 1 (skip @ HeadersFrame 1 (Some headers) endStream # fs)
        initial_read_state = readLoop 1 (HeadersFrame 1 (Some headers) endStream # fs) st'"
    and buf': "bodyBuf st' = bodyBuf initial_read_state"
    using readLoop_control_frames [OF assms(8)] by blast
  have "length (bodyBuf st') + data_total 1 fs \<le> maxResponseBodySize"
    using assms(11) by (simp add: buf' initial_read_state_def)
  from readLoop_response_headers [OF assms(9,10) this]
  obtain r w where
    "readLoop 1 (HeadersFrame 1 (Some headers) endStream # fs) st' = (Inr r, w)"
    and "StatusCode r = fst (Atoi v)" and "Status r = v @ '' '' @ StatusText (fst (Atoi v))"
    by blast
  then have "readResponse (server_frames c) 1 = (Inr r, w)"
    and "StatusCode r = 0" and "Status r = v @ '' ''"
    using st' assms(1,7) by (simp_all add: readResponse_def Atoi_not_numeric StatusText_0)
  then show ?thesis
    using assms(2-6) by (auto simp: RoundTrip_def)
qed

theorem non_numeric_status_is_accepted_witness:
  "\<exists>r. fst (RoundTrip example_unicode_lower example_transport example_request [''Accept'', ''User-Agent'']
            (example_conn\<lparr>server_frames :=
               [SettingsFrame False, HeadersFrame 1 (Some [('':status'', ''2xx''), (''server'', ''h2'')]) False,
                DataFrame 1 ''hi'' True]\<rparr>)) = Inr r \<and>
       StatusCode r = 0 \<and> Status r = ''2xx ''"
proof -
  let ?c = "example_conn\<lparr>server_frames :=
               [SettingsFrame False, HeadersFrame 1 (Some [('':status'', ''2xx''), (''server'', ''h2'')]) False,
                DataFrame 1 ''hi'' True]\<rparr>"
  have nn: "\<not> numeric ''2xx''"
    by (simp add: numeric_def is_digit_def)
  have ok: "dial_ok ?c" "preface_ok ?c" "flush_ok ?c" "deadline_ok ?c"
    by (simp_all add: example_conn_def)
  have "\<exists>buf. bufferFrames example_unicode_lower example_transport example_request [''Accept'', ''User-Agent''] = Inr buf"
    by (simp add: bufferFrames_def Let_def example_request_def)
  then obtain buf where buf:
    "bufferFrames example_unicode_lower example_transport example_request [''Accept'', ''User-Agent''] = Inr buf" ..
  have frames: "server_frames ?c =
      [SettingsFrame False] @ HeadersFrame 1 (Some [('':status'', ''2xx''), (''server'', ''h2'')]) False
        # [DataFrame 1 ''hi'' True]"
    by simp
  have skip: "\<forall>f \<in> set [SettingsFrame False]. control_frame f" by simp
  have one: "filter (\<lambda>hf. fst hf = '':status'') [('':status'', ''2xx''), (''server'', ''h2'')]
      = [('':status'', ''2xx'')]"
    by simp
  have rest: "\<forall>f \<in> set [DataFrame 1 ''hi'' True]. \<not> headers_for 1 f" by simp
  have size: "data_total 1 [DataFrame 1 ''hi'' True] \<le> maxResponseBodySize"
    by (simp add: maxResponseBodySize_def)
  show ?thesis
    using non_numeric_status_is_accepted [OF nn ok buf frames skip one rest size] by simp
qed

section \<open>The order of the header fields\<close>

lemma writeValues_append: "writeValues lk vals enc = enc @ map (Pair lk) vals"
  by (induction vals arbitrary: enc) auto

lemma writeOrdered_result:
  "writeOrdered unicode_lower hdr keys (enc, written) =
     (enc @ concat (map (ordered_fields unicode_lower hdr) keys),
      written \<union> {k \<in> CanonicalHeaderKey ` set keys. hdr k \<noteq> None})"
proof (induction keys arbitrary: enc written)
  case Nil
  then show ?case by simp
next
  case (Cons key keys)
  show ?case
  proof (cases "hdr (CanonicalHeaderKey key)")
    case None
    then have "{k \<in> CanonicalHeaderKey ` set (key # keys). hdr k \<noteq> None} =
        {k \<in> CanonicalHeaderKey ` set keys. hdr k \<noteq> None}"
      by auto
    with None Cons show ?thesis
      by (simp add: Let_def ordered_fields_def)
  next
    case (Some vals)
    then have "insert (CanonicalHeaderKey key) written \<union> {k \<in> CanonicalHeaderKey ` set keys. hdr k \<noteq> None} =
        written \<union> {k \<in> CanonicalHeaderKey ` set (key # keys). hdr k \<noteq> None}"
      by auto
    with Some Cons show ?thesis
      by (simp add: Let_def ordered_fields_def writeValues_append)
  qed
qed

lemma writeRemaining_result:
  "writeRemaining unicode_lower hdr written keys enc =
     enc @ concat (map (ranged_fields unicode_lower hdr) (filter (\<lambda>k. k \<notin> written) keys))"
  by (induction keys arbitrary: enc)
     (auto simp: ranged_fields_def writeValues_append split: option.splits)

lemma remaining_filter:
  assumes "set range_order = dom hdr"
  shows "filter (\<lambda>k. k \<notin> {k \<in> CanonicalHeaderKey ` set H. hdr k \<noteq> None}) range_order =
         filter (not_named H) range_order"
  using assms by (intro filter_cong refl) (auto simp: not_named_def)

lemma encodeHeaders_ordered:
  assumes "HeaderOrder_keys t \<noteq> []" and "valid_range (Header req) range_order"
  shows "encodeHeaders unicode_lower t req range_order =
           pseudo_fields t req @ fields_in_order unicode_lower (Header req) (HeaderOrder_keys t) range_order"
proof -
  have "set range_order = dom (Header req)"
    using assms(2) by (simp add: valid_range_def)
  from remaining_filter [OF this] assms(1) show ?thesis
    by (simp add: encodeHeaders_def Let_def pseudo_fields_def writeOrdered_result
        writeRemaining_result fields_in_order_def)
qed

text \<open>
  C3, as amended. With a non-empty ordered key list \<open>H\<close>, the fields after the
  pseudo-headers are: for each key of \<open>H\<close> in the order of \<open>H\<close>, all values of that key
  with the name as \<open>strings.ToLower\<close> writes it (an ASCII key letter by letter, any other
  key through the Unicode mapping of the library, whatever that mapping gives); then
  the fields of every request header that \<open>H\<close> does not name, each header once, in the
  order in which Go ranges over the header map. That order is any enumeration of the
  keys: the code does not fix it.
\<close>

theorem regular_headers_follow_key_list:
  assumes "HeaderOrder_keys t \<noteq> []" and "valid_range (Header req) range_order"
  shows "regular_fields unicode_lower t req range_order =
           concat (map (ordered_fields unicode_lower (Header req)) (HeaderOrder_keys t)) @
           concat (map (ranged_fields unicode_lower (Header req))
                     (filter (not_named (HeaderOrder_keys t)) range_order)) \<and>
         distinct (filter (not_named (HeaderOrder_keys t)) range_order) \<and>
         set (filter (not_named (HeaderOrder_keys t)) range_order) =
           {k \<in> dom (Header req). not_named (HeaderOrder_keys t) k}"
proof -
  have "regular_fields unicode_lower t req range_order =
      fields_in_order unicode_lower (Header req) (HeaderOrder_keys t) range_order"
    by (simp add: regular_fields_def encodeHeaders_ordered [OF assms])
  moreover have "distinct (filter (not_named (HeaderOrder_keys t)) range_order)"
    using assms(2) by (simp add: valid_range_def)
  moreover have "set (filter (not_named (HeaderOrder_keys t)) range_order) =
      {k \<in> dom (Header req). not_named (HeaderOrder_keys t) k}"
    using assms(2) by (auto simp: valid_range_def)
  ultimately show ?thesis
    by (simp add: fields_in_order_def)
qed


lemmas char_case_defs =
  CanonicalHeaderKey_def validHeaderFieldByte_def is_digit_def is_upper_def is_lower_def
  to_upper_def to_lower_def upper_letters_def lower_letters_def ToLower_def isASCII_def

lemma example_header:
  "requestHeader example_config =
     [''X-Trace'' \<mapsto> [''on''], ''Authorization'' \<mapsto> [''Bearer tok''],
      ''Content-Type'' \<mapsto> [''application/json'']]"
  by (simp add: requestHeader_def example_config_def applyContentType_def applyAuth_def
      Header_Set_def Header_Get_def char_case_defs Let_def)

lemma example_key_list: "HeaderOrder_keys example_post_transport = [''x-trace'']"
  by (simp add: example_post_transport_def example_config_def)

lemma example_range:
  "valid_range (Header example_post) [''Content-Type'', ''X-Trace'', ''Authorization'']"
  by (auto simp: valid_range_def example_post_def example_header)

lemma example_not_named:
  "filter (not_named [''x-trace'']) [''Content-Type'', ''X-Trace'', ''Authorization''] =
     [''Content-Type'', ''Authorization'']"
  "filter (not_named [''x-trace'']) [''X-Trace'', ''Authorization'', ''Content-Type''] =
     [''Authorization'', ''Content-Type'']"
  by (simp_all add: not_named_def char_case_defs Let_def)

theorem regular_headers_follow_key_list_witness:
  "regular_fields example_unicode_lower example_post_transport example_post
       [''Content-Type'', ''X-Trace'', ''Authorization''] =
     [(''x-trace'', ''on''), (''content-type'', ''application/json''),
      (''authorization'', ''Bearer tok'')]"
proof -
  have keys: "HeaderOrder_keys example_post_transport \<noteq> []"
    by (simp add: example_key_list)
  note regular_headers_follow_key_list [OF keys example_range,
      unfolded example_key_list example_not_named]
  then have "regular_fields example_unicode_lower example_post_transport example_post
       [''Content-Type'', ''X-Trace'', ''Authorization''] =
      concat (map (ordered_fields example_unicode_lower (Header example_post)) [''x-trace'']) @
      concat (map (ranged_fields example_unicode_lower (Header example_post)) [''Content-Type'', ''Authorization''])"
    by (rule conjunct1)
  then show ?thesis
    by (simp add: ordered_fields_def ranged_fields_def example_post_def example_header
        char_case_defs Let_def)
qed

lemma example_insertion_order:
  "insertion_order example_config = [''X-Trace'', ''Authorization'', ''Content-Type'']"
  by (simp add: insertion_order_def example_config_def char_case_defs Let_def)

theorem insertion_order_counterexample:
  "valid_range (Header example_post) [''Content-Type'', ''X-Trace'', ''Authorization''] \<and>
   regular_fields example_unicode_lower example_post_transport example_post
       [''Content-Type'', ''X-Trace'', ''Authorization''] =
     [(''x-trace'', ''on''), (''content-type'', ''application/json''),
      (''authorization'', ''Bearer tok'')] \<and>
   fields_in_order example_unicode_lower (Header example_post) (HeaderOrder_keys example_post_transport)
       (insertion_order example_config) =
     [(''x-trace'', ''on''), (''authorization'', ''Bearer tok''),
      (''content-type'', ''application/json'')] \<and>
   regular_fields example_unicode_lower example_post_transport example_post
       [''Content-Type'', ''X-Trace'', ''Authorization''] \<noteq>
     fields_in_order example_unicode_lower (Header example_post) (HeaderOrder_keys example_post_transport)
       (insertion_order example_config)"
proof -
  have "encodeHeaders example_unicode_lower example_post_transport example_post
       [''Content-Type'', ''X-Trace'', ''Authorization''] =
     pseudo_fields example_post_transport example_post @
     [(''x-trace'', ''on''), (''content-type'', ''application/json''),
      (''authorization'', ''Bearer tok'')]"
    by (simp add: encodeHeaders_def pseudo_fields_def example_key_list Let_def
        example_post_def example_header char_case_defs)
  then have "regular_fields example_unicode_lower example_post_transport example_post
       [''Content-Type'', ''X-Trace'', ''Authorization''] =
     [(''x-trace'', ''on''), (''content-type'', ''application/json''),
      (''authorization'', ''Bearer tok'')]"
    by (simp add: regular_fields_def)
  moreover have "fields_in_order example_unicode_lower (Header example_post) (HeaderOrder_keys example_post_transport)
       (insertion_order example_config) =
     [(''x-trace'', ''on''), (''authorization'', ''Bearer tok''),
      (''content-type'', ''application/json'')]"
    unfolding fields_in_order_def example_key_list example_insertion_order example_not_named
    by (simp add: ordered_fields_def ranged_fields_def example_post_def example_header
        char_case_defs Let_def)
  ultimately show ?thesis
    using example_range by simp
qed

section \<open>The limit on the response body\<close>

lemma readAllLimited_one_chunk: "readAllLimited n [(d, ReadEOF)] b = Inr (b @ take n d)"
  by (cases "n = 0") auto

lemma utf8_valid_ascii: "a < 128 \<Longrightarrow> utf8_valid (replicate n a)"
  by (induction n) auto

lemma ascii_text: "utf8_Valid (replicate n CHR ''a'') \<and> \<not> containsNullBytes (replicate n CHR ''a'')"
  by (simp add: utf8_Valid_def containsNullBytes_def utf8_valid_ascii)

text \<open>
  C4, on the response-assembly path. A body of 100 MiB + 1 bytes does not fail:
  \<open>parseResponse\<close> returns the first 100 MiB as the body of a successful result.
\<close>

theorem oversized_body_is_truncated:
  "parseResponse unicode_lower gunzip inflate oversized_response =
     Inr \<lparr>rd_Status = 200, rd_StatusText = ''200 OK'', rd_Headers = Map.empty,
          rd_Body = replicate maxBodySize CHR ''a'', Size = maxBodySize, IsBase64 = False,
          ContentEncoding = []\<rparr>"
proof -
  have "take maxBodySize (replicate (maxBodySize + 1) CHR ''a'') = replicate maxBodySize CHR ''a''"
    by (simp only: take_replicate) simp
  then have "readAllLimited maxBodySize (RespBody oversized_response) [] =
      Inr (replicate maxBodySize CHR ''a'')"
    by (simp add: oversized_response_def readAllLimited_one_chunk del: readAllLimited.simps replicate.simps)
  moreover have "ToLower unicode_lower (Header_Get (RespHeader oversized_response) ''Content-Encoding'') = []"
    by (simp add: oversized_response_def Header_Get_def ToLower_def isASCII_def)
  ultimately show ?thesis
    by (simp add: parseResponse_def Let_def decompressBody_def ascii_text)
       (simp add: oversized_response_def)
qed

lemma body_at_limit_is_complete:
  assumes "length body \<le> maxBodySize"
  shows "\<exists>r. parseResponse unicode_lower gunzip inflate (response\<lparr>RespBody := [(body, ReadEOF)]\<rparr>) = Inr r \<and>
             Size r = length body"
  using assms
  by (simp add: parseResponse_def Let_def readAllLimited_one_chunk del: readAllLimited.simps)

lemma readLoop_data_frames:
  assumes "headersReceived st"
  shows "fst (readLoop sid (data_frames sid chunks final) st) =
     (if length (bodyBuf st) + length (concat chunks) + length final \<le> maxResponseBodySize
      then Inr ((st_resp st)\<lparr>RespBody := [(bodyBuf st @ concat chunks @ final, ReadEOF)],
                          RespContentLength := int (length (bodyBuf st @ concat chunks @ final))\<rparr>)
      else Inl (ResponseBodyExceedsLimit maxResponseBodySize))"
  using assms
proof (induction chunks arbitrary: st)
  case Nil
  then show ?case
    by (simp add: data_frames_def finish_def Let_def)
next
  case (Cons d chunks)
  let ?st' = "st\<lparr>bodyBuf := bodyBuf st @ d,
                   replies :=
                     (if length d > 0
                      then replies st @ [WriteWindowUpdate 0 (of_nat (length d)),
                                         WriteWindowUpdate sid (of_nat (length d))]
                      else replies st)\<rparr>"
  have frames: "data_frames sid (d # chunks) final = DataFrame sid d False # data_frames sid chunks final"
    by (simp add: data_frames_def)
  show ?case
  proof (cases "length (bodyBuf st) + length d > maxResponseBodySize")
    case True
    then show ?thesis by (simp add: frames)
  next
    case False
    have "headersReceived ?st'" using Cons.prems by simp
    from Cons.IH [OF this] False show ?thesis
      by (simp add: frames Let_def add.assoc)
  qed
qed


lemma RoundTrip_result:
  assumes "dial_ok c" and "preface_ok c" and "flush_ok c" and "deadline_ok c"
    and "bufferFrames unicode_lower t req range_order = Inr buf"
  shows "fst (RoundTrip unicode_lower t req range_order c) = fst (readLoop 1 (server_frames c) initial_read_state)"
  using assms
  by (cases "readResponse (server_frames c) 1") (simp add: RoundTrip_def readResponse_def)

lemma custom_h2_body_limit:
  assumes "dial_ok c" and "preface_ok c" and "flush_ok c" and "deadline_ok c"
    and "bufferFrames unicode_lower t req range_order = Inr buf"
    and "server_frames c = skip @ HeadersFrame 1 (Some headers) False # data_frames 1 chunks final"
    and "\<forall>f \<in> set skip. control_frame f"
  shows "fst (RoundTrip unicode_lower t req range_order c) =
     (if length (concat chunks) + length final \<le> maxResponseBodySize
      then Inr ((applyFields headers (st_resp initial_read_state))
                  \<lparr>RespBody := [(concat chunks @ final, ReadEOF)],
                   RespContentLength := int (length (concat chunks @ final))\<rparr>)
      else Inl (ResponseBodyExceedsLimit maxResponseBodySize))"
proof -
  from readLoop_control_frames [OF assms(7), of 1
      "HeadersFrame 1 (Some headers) False # data_frames 1 chunks final" initial_read_state]
  obtain st' where st': "readLoop 1 (server_frames c) initial_read_state =
      readLoop 1 (HeadersFrame 1 (Some headers) False # data_frames 1 chunks final) st'"
    and same: "st_resp st' = st_resp initial_read_state" "bodyBuf st' = bodyBuf initial_read_state"
    unfolding assms(6) by blast
  let ?st = "st'\<lparr>st_resp := applyFields headers (st_resp st'), headersReceived := True\<rparr>"
  have "fst (readLoop 1 (server_frames c) initial_read_state) =
      fst (readLoop 1 (data_frames 1 chunks final) ?st)"
    unfolding st' by (simp add: Let_def)
  also have "\<dots> =
     (if length (concat chunks) + length final \<le> maxResponseBodySize
      then Inr ((applyFields headers (st_resp initial_read_state))
                  \<lparr>RespBody := [(concat chunks @ final, ReadEOF)],
                   RespContentLength := int (length (concat chunks @ final))\<rparr>)
      else Inl (ResponseBodyExceedsLimit maxResponseBodySize))"
    by (subst readLoop_data_frames) (simp_all add: same initial_read_state_def)
  finally show ?thesis
    by (simp only: RoundTrip_result [OF assms(1-5)])
qed

section \<open>The cap on redirects\<close>

lemma redirect_step:
  assumes "client_Do env i req = Inr r" and "is_redirect r" and "next_request env req r = Some req'"
  shows "redirectLoop env m (Suc n) i req hops =
     redirectLoop env m n (Suc i) req'
       (hops @ [\<lparr>hop_URL = URL_String env (url req), hop_Status = StatusCode r,
                  hop_StatusText = Status r, hop_Headers = hopHeaders (RespHeader r)\<rparr>])"
  using assms
  by (auto simp: is_redirect_def next_request_def Let_def split: option.splits sum.splits)

lemma final_step:
  assumes "client_Do env i req = Inr r" and "\<not> is_redirect r"
  shows "redirectLoop env m (Suc n) i req hops = (hops, Inr r)"
  using assms by (auto simp: is_redirect_def Let_def)

lemma redirectLoop_follows_chain:
  assumes "redirect_chain env k i req = Some (reqs, final)" and "k < n"
  shows "\<exists>hs. redirectLoop env m n i req hops = (hops @ hs, Inr final) \<and> length hs = k \<and>
              map hop_URL hs = map (\<lambda>r. URL_String env (url r)) reqs"
  using assms
proof (induction k arbitrary: n i req hops reqs)
  case 0
  then obtain n' where n: "n = Suc n'" by (cases n) auto
  from 0 obtain r where "client_Do env i req = Inr r" "\<not> is_redirect r" "final = r" "reqs = []"
    by (auto split: sum.splits if_splits)
  then show ?case
    by (simp add: n final_step del: redirectLoop.simps)
next
  case (Suc k)
  then obtain n' where n: "n = Suc n'" and k: "k < n'" by (cases n) auto
  from Suc.prems(1) obtain r req' reqs' where
    r: "client_Do env i req = Inr r" "is_redirect r" "next_request env req r = Some req'"
    and rest: "redirect_chain env k (Suc i) req' = Some (reqs', final)"
    and reqs: "reqs = req # reqs'"
    by (auto split: sum.splits if_splits option.splits)
  let ?hop = "\<lparr>hop_URL = URL_String env (url req), hop_Status = StatusCode r,
                hop_StatusText = Status r, hop_Headers = hopHeaders (RespHeader r)\<rparr>"
  from Suc.IH [OF rest k, of "hops @ [?hop]"]
  obtain hs where "redirectLoop env m n' (Suc i) req' (hops @ [?hop]) = ((hops @ [?hop]) @ hs, Inr final)"
    and "length hs = k" and "map hop_URL hs = map (\<lambda>r. URL_String env (url r)) reqs'"
    by blast
  then show ?case
    by (intro exI [of _ "?hop # hs"]) (simp add: n redirect_step [OF r] reqs del: redirectLoop.simps)
qed

lemma redirectLoop_stops_at_cap:
  assumes "redirect_chain env k i req = Some (reqs, final)" and "n \<le> k"
  shows "\<exists>hs. redirectLoop env m n i req hops = (hops @ hs, Inl (TooManyRedirects m)) \<and>
              length hs = n"
  using assms
proof (induction n arbitrary: k i req hops reqs)
  case 0
  then show ?case by simp
next
  case (Suc n)
  then obtain k' where k: "k = Suc k'" and n: "n \<le> k'" by (cases k) auto
  from Suc.prems(1) obtain r req' reqs' where
    r: "client_Do env i req = Inr r" "is_redirect r" "next_request env req r = Some req'"
    and rest: "redirect_chain env k' (Suc i) req' = Some (reqs', final)"
    unfolding k by (auto split: sum.splits if_splits option.splits)
  let ?hop = "\<lparr>hop_URL = URL_String env (url req), hop_Status = StatusCode r,
                hop_StatusText = Status r, hop_Headers = hopHeaders (RespHeader r)\<rparr>"
  from Suc.IH [OF rest n, of "hops @ [?hop]"]
  obtain hs where "redirectLoop env m n (Suc i) req' (hops @ [?hop]) =
      ((hops @ [?hop]) @ hs, Inl (TooManyRedirects m))" and "length hs = n"
    by blast
  then show ?case
    by (intro exI [of _ "?hop # hs"]) (simp add: redirect_step [OF r] del: redirectLoop.simps)
qed

lemma followRedirects_below_cap:
  assumes "redirect_chain env k 0 req = Some (reqs, final)" and "k < effective_cap maxRedirects"
  shows "\<exists>hops. followRedirects env req maxRedirects = (hops, Inr final) \<and> length hops = k \<and>
                map hop_URL hops = map (\<lambda>r. URL_String env (url r)) reqs"
proof -
  have "k < nat (if maxRedirects \<le> 0 then 10 else maxRedirects)"
    using assms(2) by (simp add: effective_cap_def split: if_splits)
  from redirectLoop_follows_chain [OF assms(1) this, of _ "[]"] show ?thesis
    by (simp add: followRedirects_def Let_def)
qed

lemma followRedirects_at_cap:
  assumes "redirect_chain env k 0 req = Some (reqs, final)" and "effective_cap maxRedirects \<le> k"
  shows "\<exists>hops. followRedirects env req maxRedirects =
            (hops, Inl (TooManyRedirects (if maxRedirects \<le> 0 then 10 else maxRedirects))) \<and>
          length hops = effective_cap maxRedirects"
proof -
  have "nat (if maxRedirects \<le> 0 then 10 else maxRedirects) \<le> k"
    using assms(2) by (simp add: effective_cap_def split: if_splits)
  from redirectLoop_stops_at_cap [OF assms(1) this, of _ "[]"] show ?thesis
    by (auto simp: followRedirects_def Let_def effective_cap_def)
qed

text \<open>
  C5, at the cap. With \<open>maxRedirects = 1\<close> and a server that redirects once and then
  answers 200, the chain has length 1, which is within the cap; \<open>followRedirects\<close>
  records the hop and then fails with "too many redirects (max 1)" instead of returning
  the final response.
\<close>

theorem one_redirect_with_cap_one_fails:
  "redirect_chain one_redirect_env 1 0 request_a =
     Some ([request_a],
           \<lparr>StatusCode = 200, Status = ''200 OK'', Proto = ''HTTP/1.1'', ProtoMajor = 1,
            RespHeader = Map.empty, RespBody = [(''done'', ReadEOF)], RespContentLength = 4\<rparr>) \<and>
   followRedirects one_redirect_env request_a 1 =
     ([\<lparr>hop_URL = ''https://example.com/a'', hop_Status = 302, hop_StatusText = ''302 Found'',
        hop_Headers = [''Location'' \<mapsto> ''https://example.com/b'']\<rparr>],
      Inl (TooManyRedirects 1))"
proof -
  have loc: "CanonicalHeaderKey ''Location'' = ''Location''"
    by (simp add: CanonicalHeaderKey_def validHeaderFieldByte_def is_digit_def is_upper_def
        is_lower_def to_upper_def to_lower_def upper_letters_def lower_letters_def Let_def)
  have hdrs: "hopHeaders [''Location'' \<mapsto> [''https://example.com/b'']] =
      [''Location'' \<mapsto> ''https://example.com/b'']"
    by (auto simp: hopHeaders_def)
  have "redirect_chain one_redirect_env (Suc 0) 0 request_a =
     Some ([request_a],
           \<lparr>StatusCode = 200, Status = ''200 OK'', Proto = ''HTTP/1.1'', ProtoMajor = 1,
            RespHeader = Map.empty, RespBody = [(''done'', ReadEOF)], RespContentLength = 4\<rparr>)"
    by (simp add: one_redirect_env_def request_a_def is_redirect_def next_request_def
        NewRequestWithContext_def Header_Get_def loc)
  moreover have "followRedirects one_redirect_env request_a 1 =
     ([\<lparr>hop_URL = ''https://example.com/a'', hop_Status = 302, hop_StatusText = ''302 Found'',
        hop_Headers = [''Location'' \<mapsto> ''https://example.com/b'']\<rparr>],
      Inl (TooManyRedirects 1))"
    by (simp add: followRedirects_def one_redirect_env_def request_a_def Header_Get_def loc
        NewRequestWithContext_def Let_def hdrs)
  ultimately show ?thesis by simp
qed

section \<open>Timing\<close>

lemma Sub_exact: "0 \<le> t - u \<Longrightarrow> t - u \<le> maxDuration \<Longrightarrow> Sub t u = t - u"
  by (simp add: Sub_def minDuration_def)

lemma Milliseconds_floor: "0 \<le> d \<Longrightarrow> Milliseconds d = d div 1000000"
  by (simp add: Milliseconds_def)

lemma floor_sum: "(a::int) div 1000000 + b div 1000000 \<le> (a + b) div 1000000"
proof -
  have "0 \<le> (a mod 1000000 + b mod 1000000) div 1000000"
    by (intro pos_imp_zdiv_nonneg_iff [THEN iffD2] add_nonneg_nonneg) simp_all
  then show ?thesis
    by (simp add: div_add1_eq [of a b 1000000])
qed


lemma result_fields:
  "TCP (result t) = (if IsZero (connectStart t) \<or> IsZero (connectDone t) then 0
                     else Milliseconds (Sub (connectDone t) (connectStart t)))"
  "TLS (result t) = (if IsZero (tlsStart t) \<or> IsZero (tlsDone t) then 0
                     else Milliseconds (Sub (tlsDone t) (tlsStart t)))"
  "TTFB (result t) = (if IsZero (requestStart t) \<or> IsZero (gotFirstByte t) then 0
                      else Milliseconds (Sub (gotFirstByte t) (requestStart t)))"
  "Download (result t) = (if IsZero (gotFirstByte t) \<or> IsZero (bodyDone t) then 0
                          else Milliseconds (Sub (bodyDone t) (gotFirstByte t)))"
  "Total (result t) = (if IsZero (requestStart t) \<or> IsZero (bodyDone t) then 0
                       else Milliseconds (Sub (bodyDone t) (requestStart t)))"
  by (simp_all add: result_def Let_def)

text \<open>
  C8. Every delta of a timing result is zero when one of its two endpoints is unset and
  the truncated number of milliseconds between them otherwise. For a tracker filled as
  \<open>Send\<close> fills it (request start and body end read from a monotonic clock, the first
  byte, if seen, in between), \<open>total \<ge> ttfb + download - 1\<close>.
\<close>

theorem total_covers_ttfb_and_download:
  assumes "filled_by_Send t"
  shows "Total (result t) \<ge> TTFB (result t) + Download (result t) - 1 \<and>
         TCP (result t) = (if IsZero (connectStart t) \<or> IsZero (connectDone t) then 0
                           else Milliseconds (Sub (connectDone t) (connectStart t))) \<and>
         TLS (result t) = (if IsZero (tlsStart t) \<or> IsZero (tlsDone t) then 0
                           else Milliseconds (Sub (tlsDone t) (tlsStart t))) \<and>
         TTFB (result t) = (if IsZero (requestStart t) \<or> IsZero (gotFirstByte t) then 0
                            else Milliseconds (Sub (gotFirstByte t) (requestStart t))) \<and>
         Download (result t) = (if IsZero (gotFirstByte t) \<or> IsZero (bodyDone t) then 0
                                else Milliseconds (Sub (bodyDone t) (gotFirstByte t))) \<and>
         Total (result t) = (if IsZero (requestStart t) \<or> IsZero (bodyDone t) then 0
                             else Milliseconds (Sub (bodyDone t) (requestStart t)))"
proof -
  from assms have start: "0 < requestStart t" and ordered: "requestStart t \<le> bodyDone t"
    and short: "bodyDone t - requestStart t \<le> maxDuration"
    and first: "gotFirstByte t = 0 \<or> requestStart t \<le> gotFirstByte t \<and> gotFirstByte t \<le> bodyDone t"
    by (simp_all add: filled_by_Send_def)
  have total: "Total (result t) = (bodyDone t - requestStart t) div 1000000"
    using start ordered short
    by (simp add: result_fields IsZero_def Sub_exact Milliseconds_floor)
  have "TTFB (result t) + Download (result t) \<le> Total (result t)"
  proof (cases "gotFirstByte t = 0")
    case True
    then have "TTFB (result t) = 0" "Download (result t) = 0"
      by (simp_all add: result_fields IsZero_def)
    moreover have "0 \<le> Total (result t)"
      using ordered by (simp add: total pos_imp_zdiv_nonneg_iff)
    ultimately show ?thesis by simp
  next
    case False
    with first have between: "requestStart t \<le> gotFirstByte t" "gotFirstByte t \<le> bodyDone t"
      by simp_all
    have "TTFB (result t) = (gotFirstByte t - requestStart t) div 1000000"
      using start False between short
      by (simp add: result_fields IsZero_def Sub_exact Milliseconds_floor)
    moreover have "Download (result t) = (bodyDone t - gotFirstByte t) div 1000000"
      using start False between short
      by (simp add: result_fields IsZero_def Sub_exact Milliseconds_floor)
    moreover have "(gotFirstByte t - requestStart t) + (bodyDone t - gotFirstByte t) =
        bodyDone t - requestStart t"
      by simp
    ultimately show ?thesis
      using floor_sum [of "gotFirstByte t - requestStart t" "bodyDone t - gotFirstByte t"]
      by (simp add: total)
  qed
  then have "Total (result t) \<ge> TTFB (result t) + Download (result t) - 1" by simp
  then show ?thesis
    by (simp only: result_fields [symmetric] simp_thms)
qed

theorem total_covers_ttfb_and_download_witness:
  "TTFB (result example_tracker) = 99 \<and> Download (result example_tracker) = 1 \<and>
   Total (result example_tracker) = 101 \<and>
   Total (result example_tracker) \<ge>
     TTFB (result example_tracker) + Download (result example_tracker) - 1"
proof -
  have "filled_by_Send example_tracker"
    by (simp add: filled_by_Send_def example_tracker_def maxDuration_def)
  from total_covers_ttfb_and_download [OF this]
  have "Total (result example_tracker) \<ge>
     TTFB (result example_tracker) + Download (result example_tracker) - 1"
    by (rule conjunct1)
  moreover have "TTFB (result example_tracker) = 99" "Download (result example_tracker) = 1"
    "Total (result example_tracker) = 101"
    by (simp_all add: result_fields example_tracker_def IsZero_def Sub_def Milliseconds_def
        maxDuration_def minDuration_def)
  ultimately show ?thesis by simp
qed

section \<open>The urlencoded body\<close>

lemma formLoop_lookup:
  "formLoop fds vals k =
     (if k \<in> Key ` set (enabled_entries fds) then Some [last_value fds k] else vals k)"
proof (induction fds arbitrary: vals)
  case Nil
  then show ?case by (simp add: enabled_entries_def)
next
  case (Cons fd fds)
  show ?case
  proof (cases "Enabled fd \<and> Key fd \<noteq> []")
    case False
    then have "enabled_entries (fd # fds) = enabled_entries fds"
      by (auto simp: enabled_entries_def)
    then have "last_value (fd # fds) k = last_value fds k"
      by (simp add: last_value_def)
    with False Cons \<open>enabled_entries (fd # fds) = enabled_entries fds\<close> show ?thesis
      by auto
  next
    case True
    then have es: "enabled_entries (fd # fds) = fd # enabled_entries fds"
      by (simp add: enabled_entries_def)
    show ?thesis
    proof (cases "k \<in> Key ` set (enabled_entries fds)")
      case later: True
      then have "filter (\<lambda>fd. Key fd = k) (enabled_entries fds) \<noteq> []"
        by (auto simp: filter_empty_conv)
      then have "last_value (fd # fds) k = last_value fds k"
        by (simp add: last_value_def es)
      with True later Cons show ?thesis by (simp add: es)
    next
      case none: False
      then have "filter (\<lambda>fd. Key fd = k) (enabled_entries fds) = []"
        by (auto simp: filter_empty_conv)
      then have "Key fd = k \<Longrightarrow> last_value (fd # fds) k = Value fd"
        by (simp add: last_value_def es)
      with True none Cons show ?thesis
        by (auto simp: es Values_Set_def)
    qed
  qed
qed

lemma dom_formLoop: "dom (formLoop fds Map.empty) = Key ` set (enabled_entries fds)"
  by (auto simp: formLoop_lookup dom_def)

lemma encodeKeys_nonempty_buf:
  assumes "\<forall>k \<in> set keys. v k = Some [val k]" and "buf \<noteq> []"
  shows "encodeKeys v keys buf =
           buf @ concat (map (\<lambda>k. ''&'' @ QueryEscape k @ ''='' @ QueryEscape (val k)) keys)"
  using assms by (induction keys arbitrary: buf) auto

lemma Join_pairs:
  "Join (p # ps) ''&'' = p @ concat (map (\<lambda>q. ''&'' @ q) ps)"
  by (induction ps arbitrary: p) auto

lemma encodeKeys_empty_buf:
  assumes "\<forall>k \<in> set keys. v k = Some [val k]"
  shows "encodeKeys v keys [] = Join (map (\<lambda>k. QueryEscape k @ ''='' @ QueryEscape (val k)) keys) ''&''"
proof (cases keys)
  case Nil
  then show ?thesis by simp
next
  case (Cons k ks)
  with assms have k: "v k = Some [val k]" and ks: "\<forall>k \<in> set ks. v k = Some [val k]" by auto
  have "encodeKeys v (k # ks) [] =
      encodeKeys v ks (QueryEscape k @ ''='' @ QueryEscape (val k))"
    by (simp add: k)
  also have "\<dots> = (QueryEscape k @ ''='' @ QueryEscape (val k)) @
      concat (map (\<lambda>k. ''&'' @ QueryEscape k @ ''='' @ QueryEscape (val k)) ks)"
    by (rule encodeKeys_nonempty_buf [OF ks]) simp
  finally show ?thesis
    by (simp add: Cons Join_pairs comp_def del: Join.simps)
qed

lemma Join_Nil_iff: "\<forall>p \<in> set ps. p \<noteq> [] \<Longrightarrow> Join ps sep = [] \<longleftrightarrow> ps = []"
  by (induction ps sep rule: Join.induct) auto

lemma sort_range:
  assumes "valid_range (formLoop fds Map.empty) range_order"
  shows "sort range_order = sort (remdups (map Key (enabled_entries fds)))"
proof (rule sorted_distinct_set_unique)
  show "set (sort range_order) = set (sort (remdups (map Key (enabled_entries fds))))"
    using assms by (simp add: valid_range_def dom_formLoop)
  show "distinct (sort range_order)"
    using assms by (simp add: valid_range_def)
qed simp_all


text \<open>
  C9. For a request with body type \<open>urlencoded\<close> the body has one \<open>key=value\<close> pair
  for each key of the enabled form entries: the keys without repetition in sorted
  order, each with the value of the last enabled entry of that key, both sides
  query-escaped and the pairs joined by \<open>&\<close>. Without enabled entries there is no body.
  The order of the form entries plays no part, nor does the order in which \<open>Encode\<close>
  ranges over the values.
\<close>

theorem urlencoded_body_one_value_per_key:
  assumes "BodyType config = ''urlencoded''"
    and "valid_range (formLoop (FormData config) Map.empty) range_order"
  shows "buildBody config range_order =
           (if enabled_entries (FormData config) = [] then None
            else Some (Join (map (form_pair (FormData config))
                               (sort (remdups (map Key (enabled_entries (FormData config))))))
                         ''&''))"
proof -
  let ?fds = "FormData config"
  let ?vals = "formLoop ?fds Map.empty"
  let ?keys = "sort (remdups (map Key (enabled_entries ?fds)))"
  have keys: "sort range_order = ?keys"
    by (rule sort_range [OF assms(2)])
  have range_set: "set range_order = Key ` set (enabled_entries ?fds)"
    using assms(2) by (simp add: valid_range_def dom_formLoop)
  have lookup: "\<forall>k \<in> set ?keys. ?vals k = Some [last_value ?fds k]"
    by (simp add: formLoop_lookup)
  have encoded: "Values_Encode ?vals range_order =
      (if range_order = [] then [] else Join (map (form_pair ?fds) ?keys) ''&'')"
    using encodeKeys_empty_buf [OF lookup]
    by (simp add: Values_Encode_def keys form_pair_def [abs_def])
  show ?thesis
  proof (cases "enabled_entries ?fds = []")
    case True
    with range_set have "range_order = []" by simp
    with True assms(1) encoded show ?thesis
      by (simp add: buildBody_def Let_def)
  next
    case False
    with range_set have nonempty: "range_order \<noteq> []" by auto
    have "set ?keys = set range_order"
      by (simp add: range_set)
    with nonempty have "?keys \<noteq> []"
      by (metis set_empty)
    then have "?keys \<noteq> []" .
    moreover have "\<forall>p \<in> set (map (form_pair ?fds) ?keys). p \<noteq> []"
      by (simp add: form_pair_def)
    ultimately have "Join (map (form_pair ?fds) ?keys) ''&'' \<noteq> []"
      using Join_Nil_iff [of "map (form_pair ?fds) ?keys" "''&''"] by simp
    with False nonempty assms(1) encoded show ?thesis
      by (simp add: buildBody_def Let_def)
  qed
qed

theorem urlencoded_body_one_value_per_key_witness:
  "buildBody example_form [''b'', ''a''] = Some ''a=x+y&b=3''"
proof -
  have entries: "enabled_entries (FormData example_form) =
      [form_entry ''b'' ''1'' True, form_entry ''a'' ''x y'' True, form_entry ''b'' ''3'' True]"
    by (simp add: example_form_def enabled_entries_def form_entry_def)
  have type: "BodyType example_form = ''urlencoded''"
    by (simp add: example_form_def)
  have "dom (formLoop (FormData example_form) Map.empty) = {''a'', ''b''}"
    by (auto simp: dom_formLoop entries form_entry_def)
  then have range: "valid_range (formLoop (FormData example_form) Map.empty) [''b'', ''a'']"
    by (auto simp: valid_range_def)
  have keys: "sort (remdups (map Key (enabled_entries (FormData example_form)))) = [''a'', ''b'']"
    by (simp add: entries form_entry_def)
  have pairs: "form_pair (FormData example_form) ''a'' = ''a=x+y''"
    "form_pair (FormData example_form) ''b'' = ''b=3''"
    by (simp_all add: form_pair_def last_value_def entries form_entry_def QueryEscape_def
        escape_byte_def unreserved_def is_digit_def is_upper_def is_lower_def
        upper_letters_def lower_letters_def)
  from urlencoded_body_one_value_per_key [OF type range]
  show ?thesis
    unfolding keys by (simp add: entries pairs)
qed

section \<open>The merged timeline\<close>

lemma appendShifted_map:
  "appendShifted offset es merged =
     merged @ map (\<lambda>e. e\<lparr>elapsed := wrap64 (elapsed e + offset)\<rparr>) es"
  by (induction es arbitrary: merged) auto

lemma mergeLoop_concat:
  "mergeLoop base conns merged = merged @ concat (map (shifted_entries base) conns)"
  by (induction conns arbitrary: merged) (auto simp: appendShifted_map shifted_entries_def)

lemma mergeConnEntries_sorts_concatenation:
  "conns \<noteq> [] \<Longrightarrow>
   mergeConnEntries sorting conns = sorting (\<lambda>a b. elapsed a < elapsed b) (concatenation conns)"
  by (simp add: mergeConnEntries_def Let_def mergeLoop_concat concatenation_def hd_conv_nth)

lemma mset_insert_behind: "mset (insert_behind lt x ys) = add_mset x (mset ys)"
  by (induction ys) auto

lemma set_insert_behind: "set (insert_behind lt x ys) = insert x (set ys)"
  by (induction ys) auto

lemma sorted_insert_behind:
  "sorted (map key ys) \<Longrightarrow> sorted (map key (insert_behind (\<lambda>a b. key a < key b) x ys))"
  for key :: "'a \<Rightarrow> int"
  by (induction ys) (auto simp: set_insert_behind)

lemma foldl_insert_behind:
  fixes key :: "'a \<Rightarrow> int"
  assumes "sorted (map key acc)"
  shows "mset (foldl (\<lambda>s x. insert_behind (\<lambda>a b. key a < key b) x s) acc xs) = mset acc + mset xs \<and>
         sorted (map key (foldl (\<lambda>s x. insert_behind (\<lambda>a b. key a < key b) x s) acc xs))"
  using assms
  by (induction xs arbitrary: acc) (auto simp: mset_insert_behind sorted_insert_behind)

lemma insertion_sorting_contract: "sort_Slice_contract insertion_sorting"
  unfolding sort_Slice_contract_def insertion_sorting_def
  using foldl_insert_behind [of _ "[]"] by auto

text \<open>
  C7, as amended. For a non-empty list of byte taps and every sorting function that
  keeps the promise of \<open>sort.Slice\<close>, the merged timeline holds exactly the entries of
  all taps, each shifted by the start of its tap relative to the start of the first
  tap, and its adjusted times do not decrease. The relative order of entries with equal
  adjusted times is not determined.
\<close>

theorem merged_timeline_is_sorted_shift:
  assumes "conns \<noteq> []" and "sort_Slice_contract sorting"
  shows "\<exists>merged. mergeConnEntries sorting conns = Some merged \<and>
           mset merged = mset (concatenation conns) \<and>
           sorted (map elapsed merged)"
proof -
  have "mergeConnEntries sorting conns =
      sorting (\<lambda>a b. elapsed a < elapsed b) (concatenation conns)"
    by (rule mergeConnEntries_sorts_concatenation [OF assms(1)])
  moreover from assms(2)
  have "\<exists>ys. sorting (\<lambda>a b. elapsed a < elapsed b) (concatenation conns) = Some ys \<and>
          mset ys = mset (concatenation conns) \<and> sorted (map elapsed ys)"
    unfolding sort_Slice_contract_def by blast
  ultimately show ?thesis by simp
qed

lemma example_concatenation:
  "concatenation example_conns =
     [\<lparr>elapsed = 2000000, direction = ''send'', data = ''a''\<rparr>,
      \<lparr>elapsed = 7000000, direction = ''recv'', data = ''b''\<rparr>,
      \<lparr>elapsed = 7000000, direction = ''send'', data = ''c''\<rparr>]"
  by (simp add: concatenation_def example_conns_def shifted_entries_def Sub_def wrap64_def
      maxDuration_def minDuration_def)

theorem merged_timeline_is_sorted_shift_witness:
  "\<exists>merged. mergeConnEntries insertion_sorting example_conns = Some merged \<and>
     mset merged =
       mset [\<lparr>elapsed = 2000000, direction = ''send'', data = ''a''\<rparr>,
             \<lparr>elapsed = 7000000, direction = ''recv'', data = ''b''\<rparr>,
             \<lparr>elapsed = 7000000, direction = ''send'', data = ''c''\<rparr>] \<and>
     sorted (map elapsed merged)"
proof -
  have "example_conns \<noteq> []" by (simp add: example_conns_def)
  from merged_timeline_is_sorted_shift [OF this insertion_sorting_contract]
  show ?thesis by (simp only: example_concatenation)
qed

text \<open>The run of \<open>sort.Slice\<close> on thirteen entries, step by step.\<close>

lemma scanDown_unfold:
  "scanDown p i j = (if j = 0 then 0 else if i \<le> j \<and> p j then scanDown p i (j - 1) else j)"
  by (cases j) auto

lemma insertionInner_unfold:
  "insertionInner lt a j xs =
     (if j > a \<and> data_Less lt xs j (j - 1)
      then insertionInner lt a (j - 1) (data_Swap xs j (j - 1)) else xs)"
  by (cases j) auto

lemmas pdqsort_func_numeral =
  pdqsort_func.simps(2) [of "pred_numeral k", folded numeral_eq_Suc] for k

lemma overlapping_concatenation:
  "concatenation overlapping_conns =
     [\<lparr>elapsed = 1000000, direction = ''send'', data = ''a''\<rparr>,
      \<lparr>elapsed = 1000000, direction = ''recv'', data = ''b''\<rparr>,
      \<lparr>elapsed = 2000000, direction = ''send'', data = ''c''\<rparr>,
      \<lparr>elapsed = 3000000, direction = ''recv'', data = ''d''\<rparr>,
      \<lparr>elapsed = 4000000, direction = ''send'', data = ''e''\<rparr>,
      \<lparr>elapsed = 5000000, direction = ''recv'', data = ''f''\<rparr>,
      \<lparr>elapsed = 6000000, direction = ''send'', data = ''g''\<rparr>,
      \<lparr>elapsed = 7000000, direction = ''recv'', data = ''h''\<rparr>,
      \<lparr>elapsed = 8000000, direction = ''send'', data = ''i''\<rparr>,
      \<lparr>elapsed = 9000000, direction = ''recv'', data = ''j''\<rparr>,
      \<lparr>elapsed = 10000000, direction = ''send'', data = ''k''\<rparr>,
      \<lparr>elapsed = 11000000, direction = ''recv'', data = ''l''\<rparr>,
      \<lparr>elapsed = 5500000, direction = ''send'', data = ''m''\<rparr>]"
  by (simp add: concatenation_def overlapping_conns_def shifted_entries_def Sub_def wrap64_def
      maxDuration_def minDuration_def)

lemma overlapping_length: "length (concatenation overlapping_conns) = 13"
  by (simp add: overlapping_concatenation)

lemma overlapping_limit: "bits_Len 13 = 4"
  by (simp add: bits_Len.simps)

text \<open>The median of the entries at 3, 6 and 9 is the one at 6, found without a swap.\<close>

lemma overlapping_pivot:
  "choosePivot_func (\<lambda>a b. elapsed a < elapsed b) (concatenation overlapping_conns) 0 13 =
     (6, increasingHint)"
  by (simp add: overlapping_concatenation choosePivot_func_def median_func_def order2_func_def
      data_Less_def hint_of_swaps_def Let_def)

text \<open>The last entry is out of order and the range is short: nothing is moved.\<close>

lemma overlapping_partial:
  "partialInsertionSort_func (\<lambda>a b. elapsed a < elapsed b) (concatenation overlapping_conns) 0 13 =
     (concatenation overlapping_conns, False)"
  by (simp add: overlapping_concatenation partialInsertionSort_func_def
      nextDescent.simps data_Less_def Let_def numeral_eq_Suc)

text \<open>
  The partition swaps the pivot \<open>g\<close> with the first entry \<open>a\<close>, which lands behind
  \<open>b\<close>; \<open>h\<close> and \<open>m\<close> change sides; the pivot then changes place with \<open>m\<close>.
\<close>

lemma overlapping_partition:
  "partition_func (\<lambda>a b. elapsed a < elapsed b) (concatenation overlapping_conns) 0 13 6 =
     ([\<lparr>elapsed = 5500000, direction = ''send'', data = ''m''\<rparr>,
       \<lparr>elapsed = 1000000, direction = ''recv'', data = ''b''\<rparr>,
       \<lparr>elapsed = 2000000, direction = ''send'', data = ''c''\<rparr>,
       \<lparr>elapsed = 3000000, direction = ''recv'', data = ''d''\<rparr>,
       \<lparr>elapsed = 4000000, direction = ''send'', data = ''e''\<rparr>,
       \<lparr>elapsed = 5000000, direction = ''recv'', data = ''f''\<rparr>,
       \<lparr>elapsed = 1000000, direction = ''send'', data = ''a''\<rparr>,
       \<lparr>elapsed = 6000000, direction = ''send'', data = ''g''\<rparr>,
       \<lparr>elapsed = 8000000, direction = ''send'', data = ''i''\<rparr>,
       \<lparr>elapsed = 9000000, direction = ''recv'', data = ''j''\<rparr>,
       \<lparr>elapsed = 10000000, direction = ''send'', data = ''k''\<rparr>,
       \<lparr>elapsed = 11000000, direction = ''recv'', data = ''l''\<rparr>,
       \<lparr>elapsed = 7000000, direction = ''recv'', data = ''h''\<rparr>], 7, False)"
  by (simp add: overlapping_concatenation partition_func_def scanUp.simps scanDown_unfold
      partitionLoop.simps data_Less_def data_Swap_def Let_def)

text \<open>Both sides are short and sorted by insertion, which leaves \<open>a\<close> behind \<open>b\<close>.\<close>

lemma overlapping_sorted:
  "sort_Slice (\<lambda>a b. elapsed a < elapsed b) (concatenation overlapping_conns) =
     Some [\<lparr>elapsed = 1000000, direction = ''recv'', data = ''b''\<rparr>,
           \<lparr>elapsed = 1000000, direction = ''send'', data = ''a''\<rparr>,
           \<lparr>elapsed = 2000000, direction = ''send'', data = ''c''\<rparr>,
           \<lparr>elapsed = 3000000, direction = ''recv'', data = ''d''\<rparr>,
           \<lparr>elapsed = 4000000, direction = ''send'', data = ''e''\<rparr>,
           \<lparr>elapsed = 5000000, direction = ''recv'', data = ''f''\<rparr>,
           \<lparr>elapsed = 5500000, direction = ''send'', data = ''m''\<rparr>,
           \<lparr>elapsed = 6000000, direction = ''send'', data = ''g''\<rparr>,
           \<lparr>elapsed = 7000000, direction = ''recv'', data = ''h''\<rparr>,
           \<lparr>elapsed = 8000000, direction = ''send'', data = ''i''\<rparr>,
           \<lparr>elapsed = 9000000, direction = ''recv'', data = ''j''\<rparr>,
           \<lparr>elapsed = 10000000, direction = ''send'', data = ''k''\<rparr>,
           \<lparr>elapsed = 11000000, direction = ''recv'', data = ''l''\<rparr>]"
  by (simp add: sort_Slice_def overlapping_length overlapping_limit overlapping_pivot
      overlapping_partial overlapping_partition Let_def pdqsort_func_numeral
      insertionSort_func_def insertionInner_unfold data_Less_def data_Swap_def upt_rec)

text \<open>
  C7 as stated fails on thirteen entries: the first connection logs \<open>a\<close> and then
  \<open>b\<close> at the same adjusted time, and the merged timeline has \<open>b\<close> before \<open>a\<close>.
\<close>

theorem equal_times_reordered_counterexample:
  "concatenation overlapping_conns =
     [\<lparr>elapsed = 1000000, direction = ''send'', data = ''a''\<rparr>,
      \<lparr>elapsed = 1000000, direction = ''recv'', data = ''b''\<rparr>,
      \<lparr>elapsed = 2000000, direction = ''send'', data = ''c''\<rparr>,
      \<lparr>elapsed = 3000000, direction = ''recv'', data = ''d''\<rparr>,
      \<lparr>elapsed = 4000000, direction = ''send'', data = ''e''\<rparr>,
      \<lparr>elapsed = 5000000, direction = ''recv'', data = ''f''\<rparr>,
      \<lparr>elapsed = 6000000, direction = ''send'', data = ''g''\<rparr>,
      \<lparr>elapsed = 7000000, direction = ''recv'', data = ''h''\<rparr>,
      \<lparr>elapsed = 8000000, direction = ''send'', data = ''i''\<rparr>,
      \<lparr>elapsed = 9000000, direction = ''recv'', data = ''j''\<rparr>,
      \<lparr>elapsed = 10000000, direction = ''send'', data = ''k''\<rparr>,
      \<lparr>elapsed = 11000000, direction = ''recv'', data = ''l''\<rparr>,
      \<lparr>elapsed = 5500000, direction = ''send'', data = ''m''\<rparr>] \<and>
   mergeConnEntries sort_Slice overlapping_conns =
     Some [\<lparr>elapsed = 1000000, direction = ''recv'', data = ''b''\<rparr>,
           \<lparr>elapsed = 1000000, direction = ''send'', data = ''a''\<rparr>,
           \<lparr>elapsed = 2000000, direction = ''send'', data = ''c''\<rparr>,
           \<lparr>elapsed = 3000000, direction = ''recv'', data = ''d''\<rparr>,
           \<lparr>elapsed = 4000000, direction = ''send'', data = ''e''\<rparr>,
           \<lparr>elapsed = 5000000, direction = ''recv'', data = ''f''\<rparr>,
           \<lparr>elapsed = 5500000, direction = ''send'', data = ''m''\<rparr>,
           \<lparr>elapsed = 6000000, direction = ''send'', data = ''g''\<rparr>,
           \<lparr>elapsed = 7000000, direction = ''recv'', data = ''h''\<rparr>,
           \<lparr>elapsed = 8000000, direction = ''send'', data = ''i''\<rparr>,
           \<lparr>elapsed = 9000000, direction = ''recv'', data = ''j''\<rparr>,
           \<lparr>elapsed = 10000000, direction = ''send'', data = ''k''\<rparr>,
           \<lparr>elapsed = 11000000, direction = ''recv'', data = ''l''\<rparr>] \<and>
   \<not> stably_sorted elapsed (concatenation overlapping_conns)
        (the (mergeConnEntries sort_Slice overlapping_conns))"
proof -
  have nonempty: "overlapping_conns \<noteq> []"
    by (simp add: overlapping_conns_def)
  have merged: "mergeConnEntries sort_Slice overlapping_conns =
      sort_Slice (\<lambda>a b. elapsed a < elapsed b) (concatenation overlapping_conns)"
    by (rule mergeConnEntries_sorts_concatenation [OF nonempty])
  have "\<not> stably_sorted elapsed (concatenation overlapping_conns)
        (the (mergeConnEntries sort_Slice overlapping_conns))"
  proof
    assume "stably_sorted elapsed (concatenation overlapping_conns)
        (the (mergeConnEntries sort_Slice overlapping_conns))"
    then have "filter (\<lambda>x. elapsed x = 1000000) (the (mergeConnEntries sort_Slice overlapping_conns)) =
        filter (\<lambda>x. elapsed x = 1000000) (concatenation overlapping_conns)"
      unfolding stably_sorted_def by blast
    then show False
      unfolding merged overlapping_sorted
      by (simp add: overlapping_concatenation)
  qed
  moreover note overlapping_concatenation
  moreover have "mergeConnEntries sort_Slice overlapping_conns =
     Some [\<lparr>elapsed = 1000000, direction = ''recv'', data = ''b''\<rparr>,
           \<lparr>elapsed = 1000000, direction = ''send'', data = ''a''\<rparr>,
           \<lparr>elapsed = 2000000, direction = ''send'', data = ''c''\<rparr>,
           \<lparr>elapsed = 3000000, direction = ''recv'', data = ''d''\<rparr>,
           \<lparr>elapsed = 4000000, direction = ''send'', data = ''e''\<rparr>,
           \<lparr>elapsed = 5000000, direction = ''recv'', data = ''f''\<rparr>,
           \<lparr>elapsed = 5500000, direction = ''send'', data = ''m''\<rparr>,
           \<lparr>elapsed = 6000000, direction = ''send'', data = ''g''\<rparr>,
           \<lparr>elapsed = 7000000, direction = ''recv'', data = ''h''\<rparr>,
           \<lparr>elapsed = 8000000, direction = ''send'', data = ''i''\<rparr>,
           \<lparr>elapsed = 9000000, direction = ''recv'', data = ''j''\<rparr>,
           \<lparr>elapsed = 10000000, direction = ''send'', data = ''k''\<rparr>,
           \<lparr>elapsed = 11000000, direction = ''recv'', data = ''l''\<rparr>]"
    unfolding merged by (rule overlapping_sorted)
  ultimately show ?thesis by blast
qed
section \<open>The extension list built from a JA3 text\<close>

lemma extensionLoop_map_filter:
  "extensionLoop parsed ids extensions = extensions @ List.map_filter (extensionCase parsed) ids"
  by (induction ids arbitrary: extensions) (auto simp: List.map_filter_simps split: option.splits)

lemma dash_not_digit: "\<not> is_digit CHR ''-''" "\<not> is_digit CHR '',''"
  by (simp_all add: is_digit_def)

lemma decimal_no_dash: "CHR ''-'' \<notin> set (decimal n)" "CHR '','' \<notin> set (decimal n)"
  using digits_no_sep [OF decimal_digits] dash_not_digit by blast+

lemma Split_dash_text: "ids \<noteq> [] \<Longrightarrow> Split CHR ''-'' (dash_text ids) = map decimal ids"
proof (induction ids rule: dash_text.induct)
  case 1
  then show ?case by simp
next
  case (2 n)
  then show ?case by (simp add: Split_no_sep decimal_no_dash)
next
  case (3 n m ns)
  then show ?case by (simp add: Split_append_sep decimal_no_dash)
qed

lemma dash_text_Nil_iff: "dash_text ids = [] \<longleftrightarrow> ids = []"
  by (induction ids rule: dash_text.induct) (auto simp: decimal_not_Nil)

lemma parseIDs_decimals:
  "\<forall>n \<in> set ids. n < 2 ^ b \<Longrightarrow> parseIDs b (map decimal ids) acc = acc @ ids"
  by (induction ids arbitrary: acc) (auto simp: ParseUint_decimal)

lemma ParseJA3Text_extensions:
  assumes "ParseJA3Text j = Inr parsed" and "Split CHR '','' j ! 2 = dash_text ids"
    and "\<forall>n \<in> set ids. n < 2 ^ 16"
  shows "Extensions parsed = map of_nat ids"
proof (cases "ids = []")
  case True
  with assms show ?thesis
    by (auto simp: ParseJA3Text_def Let_def split: if_splits option.splits)
next
  case False
  then have "dash_text ids \<noteq> []" by (simp add: dash_text_Nil_iff)
  with assms False show ?thesis
    by (auto simp: ParseJA3Text_def Let_def Split_dash_text parseIDs_decimals
        split: if_splits option.splits)
qed


text \<open>The switch of the builder gives the entries of the table.\<close>

lemma extensionCase_table:
  assumes "\<not> isGREASE (unat extID)"
  shows "extensionCase parsed extID = Some (table_extension parsed extID)"
  using assms
  by (simp add: extensionCase_def table_extension_def fixed_table_def ja3_curves_def
      ja3_pointFormats_def defaultSigAlgs_def X25519_def CurveP256_def CurveP384_def
      X25519MLKEM768_def VersionTLS12_def VersionTLS13_def CertCompressionBrotli_def)

lemma extension_id_table: "extension_id (table_extension parsed extID) = extID"
  by (simp add: table_extension_def fixed_table_def)

lemma table_extension_not_GREASE: "table_extension parsed extID \<noteq> UtlsGREASEExtension"
  by (simp add: table_extension_def fixed_table_def)

lemma map_filter_Some: "\<forall>x \<in> set xs. f x = Some (g x) \<Longrightarrow> List.map_filter f xs = map g xs"
  by (induction xs) (auto simp: List.map_filter_simps)

lemma mapExtensionIDs_table:
  assumes "\<forall>extID \<in> set (Extensions parsed). \<not> isGREASE (unat extID)"
  shows "mapExtensionIDs parsed = map (table_extension parsed) (Extensions parsed)"
  using assms
  by (simp add: mapExtensionIDs_def extensionLoop_map_filter map_filter_Some extensionCase_table)

text \<open>The shuffle: its swaps keep the length and the elements, and each undoes itself.\<close>

lemma length_shuffleSwap: "length (shuffleSwap exts i j) = length exts"
  by (simp add: shuffleSwap_def)

lemma length_rand_Shuffle: "length (rand_Shuffle draw n exts) = length exts"
  by (induction n arbitrary: exts) (simp_all add: length_shuffleSwap)

lemma shuffleSwap_twice:
  assumes "i < length exts" and "j < length exts"
  shows "shuffleSwap (shuffleSwap exts i j) i j = exts"
proof (cases "skipShuf i exts \<or> skipShuf j exts")
  case True
  then show ?thesis by (simp add: shuffleSwap_def)
next
  case False
  let ?swapped = "exts[i := exts ! j, j := exts ! i]"
  from assms have at_i: "?swapped ! i = exts ! j" and at_j: "?swapped ! j = exts ! i"
    by (auto simp: nth_list_update)
  with False have "\<not> (skipShuf i ?swapped \<or> skipShuf j ?swapped)"
    by (simp add: skipShuf_def)
  with False have "shuffleSwap (shuffleSwap exts i j) i j = ?swapped[i := ?swapped ! j, j := ?swapped ! i]"
    by (simp add: shuffleSwap_def)
  also have "\<dots> = exts"
    using assms by (simp add: at_i at_j list_eq_iff_nth_eq nth_list_update)
  finally show ?thesis .
qed

lemma undo_swaps_rand_Shuffle:
  "n < length exts \<Longrightarrow> undo_swaps draw n (rand_Shuffle draw n exts) = exts"
proof (induction n arbitrary: exts)
  case 0
  then show ?case by simp
next
  case (Suc n)
  let ?j = "draw (Suc n) mod (Suc n + 1)"
  have "?j < Suc n + 1" by simp
  with Suc.prems have j: "?j < length exts" by linarith
  have "n < length (shuffleSwap exts (Suc n) ?j)"
    using Suc.prems by (simp add: length_shuffleSwap)
  then have "undo_swaps draw n (rand_Shuffle draw n (shuffleSwap exts (Suc n) ?j)) =
      shuffleSwap exts (Suc n) ?j"
    by (rule Suc.IH)
  then show ?case
    using shuffleSwap_twice [OF Suc.prems j] by simp
qed

lemma undo_shuffle_ShuffleChromeTLSExtensions:
  "undo_shuffle draw (ShuffleChromeTLSExtensions draw exts) = exts"
proof (cases exts)
  case Nil
  then show ?thesis by (simp add: undo_shuffle_def ShuffleChromeTLSExtensions_def)
next
  case (Cons e es)
  then have "length exts - 1 < length exts" by simp
  then show ?thesis
    by (simp add: undo_shuffle_def ShuffleChromeTLSExtensions_def length_rand_Shuffle
        undo_swaps_rand_Shuffle)
qed

lemma mset_shuffleSwap:
  "i < length exts \<Longrightarrow> j < length exts \<Longrightarrow> mset (shuffleSwap exts i j) = mset exts"
  by (simp add: shuffleSwap_def mset_swap)

lemma mset_rand_Shuffle: "n < length exts \<Longrightarrow> mset (rand_Shuffle draw n exts) = mset exts"
proof (induction n arbitrary: exts)
  case 0
  then show ?case by simp
next
  case (Suc n)
  let ?j = "draw (Suc n) mod (Suc n + 1)"
  have "?j < Suc n + 1" by simp
  with Suc.prems have j: "?j < length exts" by linarith
  have "n < length (shuffleSwap exts (Suc n) ?j)"
    using Suc.prems by (simp add: length_shuffleSwap)
  then have "mset (rand_Shuffle draw n (shuffleSwap exts (Suc n) ?j)) =
      mset (shuffleSwap exts (Suc n) ?j)"
    by (rule Suc.IH)
  then show ?case
    using mset_shuffleSwap [OF Suc.prems j] by simp
qed

lemma mset_ShuffleChromeTLSExtensions: "mset (ShuffleChromeTLSExtensions draw exts) = mset exts"
  by (cases exts) (simp_all add: ShuffleChromeTLSExtensions_def mset_rand_Shuffle)

text \<open>A GREASE or padding extension keeps its place.\<close>

lemma shuffleSwap_skipped:
  assumes "skipShuf k exts"
  shows "shuffleSwap exts i j ! k = exts ! k"
proof (cases "skipShuf i exts \<or> skipShuf j exts")
  case True
  then show ?thesis by (simp add: shuffleSwap_def)
next
  case False
  with assms have "k \<noteq> i" and "k \<noteq> j" by auto
  with False show ?thesis by (simp add: shuffleSwap_def)
qed

lemma rand_Shuffle_skipped:
  "skipShuf k exts \<Longrightarrow> rand_Shuffle draw n exts ! k = exts ! k"
proof (induction n arbitrary: exts)
  case 0
  then show ?case by simp
next
  case (Suc n)
  let ?swapped = "shuffleSwap exts (Suc n) (draw (Suc n) mod (Suc n + 1))"
  have same: "?swapped ! k = exts ! k"
    by (rule shuffleSwap_skipped [OF Suc.prems])
  with Suc.prems have "skipShuf k ?swapped"
    by (simp add: skipShuf_def)
  then have "rand_Shuffle draw n ?swapped ! k = ?swapped ! k"
    by (rule Suc.IH)
  with same show ?case by simp
qed

lemma GREASE_ends_stay:
  "hd (ShuffleChromeTLSExtensions draw ([UtlsGREASEExtension] @ exts @ [UtlsGREASEExtension])) =
     UtlsGREASEExtension \<and>
   last (ShuffleChromeTLSExtensions draw ([UtlsGREASEExtension] @ exts @ [UtlsGREASEExtension])) =
     UtlsGREASEExtension"
proof -
  let ?all = "[UtlsGREASEExtension] @ exts @ [UtlsGREASEExtension]"
  let ?out = "ShuffleChromeTLSExtensions draw ?all"
  have len: "length ?out = length exts + 2"
    by (simp add: ShuffleChromeTLSExtensions_def length_rand_Shuffle length_shuffleSwap)
  then have nonempty: "?out \<noteq> []" by auto
  have first: "skipShuf 0 ?all"
    by (simp add: skipShuf_def)
  have "?all ! (length exts + 1) = UtlsGREASEExtension"
    by (simp add: nth_append)
  then have final: "skipShuf (length exts + 1) ?all"
    by (simp add: skipShuf_def)
  have "?out ! 0 = ?all ! 0"
    unfolding ShuffleChromeTLSExtensions_def by (rule rand_Shuffle_skipped [OF first])
  also have "\<dots> = UtlsGREASEExtension" by simp
  finally have at_first: "?out ! 0 = UtlsGREASEExtension" .
  have "?out ! (length exts + 1) = ?all ! (length exts + 1)"
    unfolding ShuffleChromeTLSExtensions_def by (rule rand_Shuffle_skipped [OF final])
  also have "\<dots> = UtlsGREASEExtension" by (simp add: nth_append)
  finally have at_last: "?out ! (length exts + 1) = UtlsGREASEExtension" .
  have "hd ?out = ?out ! 0"
    by (rule hd_conv_nth [OF nonempty])
  moreover have "last ?out = ?out ! (length exts + 1)"
    by (simp only: last_conv_nth [OF nonempty] len) simp
  ultimately show ?thesis
    by (simp only: at_first at_last)
qed

lemma without_GREASE_sandwich:
  assumes "\<forall>e \<in> set exts. e \<noteq> UtlsGREASEExtension"
  shows "without_GREASE ([UtlsGREASEExtension] @ exts @ [UtlsGREASEExtension]) = exts"
  using assms by (simp add: without_GREASE_def filter_id_conv)

text \<open>
  C2, as amended. Let a JA3 text parse and let its extension list hold no GREASE id.
  The library shuffle is random: for the numbers that a call draws, undo its swaps on
  the extension list of the ClientHello specification and remove the GREASE extensions
  the builder added. What is left is, in the order of the JA3 list, the entry of the
  fixed table for each id, the opaque placeholder with that id where the table has
  none; its ids are the JA3 list. Without the draws only this much is determined: the
  list begins and ends with a GREASE extension, and without them it is a permutation
  of those entries. Where the extension part of the text lists the ids \<open>ids\<close>, the JA3
  list is \<open>ids\<close>.
\<close>

theorem shuffled_extensions_are_table_entries:
  assumes "ParseJA3Text j = Inr parsed"
    and "\<forall>extID \<in> set (Extensions parsed). \<not> isGREASE (unat extID)"
  shows "without_GREASE (undo_shuffle draw (spec_Extensions (BuildSpecFromJA3 draw parsed))) =
           map (table_extension parsed) (Extensions parsed) \<and>
         map extension_id
           (without_GREASE (undo_shuffle draw (spec_Extensions (BuildSpecFromJA3 draw parsed)))) =
           Extensions parsed \<and>
         hd (spec_Extensions (BuildSpecFromJA3 draw parsed)) = UtlsGREASEExtension \<and>
         last (spec_Extensions (BuildSpecFromJA3 draw parsed)) = UtlsGREASEExtension \<and>
         mset (without_GREASE (spec_Extensions (BuildSpecFromJA3 draw parsed))) =
           mset (map (table_extension parsed) (Extensions parsed)) \<and>
         (\<forall>ids. Split CHR '','' j ! 2 = dash_text ids \<and> (\<forall>n \<in> set ids. n < 2 ^ 16) \<longrightarrow>
                Extensions parsed = map of_nat ids)"
proof -
  let ?entries = "map (table_extension parsed) (Extensions parsed)"
  let ?all = "[UtlsGREASEExtension] @ ?entries @ [UtlsGREASEExtension]"
  have emitted: "spec_Extensions (BuildSpecFromJA3 draw parsed) =
      ShuffleChromeTLSExtensions draw ?all"
    by (simp add: BuildSpecFromJA3_def Let_def mapExtensionIDs_table [OF assms(2)])
  have clean: "\<forall>e \<in> set ?entries. e \<noteq> UtlsGREASEExtension"
    by (simp add: table_extension_not_GREASE)
  have undone: "without_GREASE (undo_shuffle draw (spec_Extensions (BuildSpecFromJA3 draw parsed))) =
      ?entries"
    unfolding emitted undo_shuffle_ShuffleChromeTLSExtensions
    by (rule without_GREASE_sandwich [OF clean])
  have ids: "map extension_id ?entries = Extensions parsed"
    by (simp add: extension_id_table comp_def)
  have ends: "hd (spec_Extensions (BuildSpecFromJA3 draw parsed)) = UtlsGREASEExtension \<and>
      last (spec_Extensions (BuildSpecFromJA3 draw parsed)) = UtlsGREASEExtension"
    unfolding emitted by (rule GREASE_ends_stay)
  have "mset (without_GREASE (ShuffleChromeTLSExtensions draw ?all)) =
      filter_mset (\<lambda>e. e \<noteq> UtlsGREASEExtension) (mset (ShuffleChromeTLSExtensions draw ?all))"
    by (simp add: without_GREASE_def)
  also have "\<dots> = filter_mset (\<lambda>e. e \<noteq> UtlsGREASEExtension) (mset ?all)"
    by (simp only: mset_ShuffleChromeTLSExtensions)
  also have "\<dots> = mset (without_GREASE ?all)"
    by (simp add: without_GREASE_def)
  also have "\<dots> = mset ?entries"
    by (simp only: without_GREASE_sandwich [OF clean])
  finally have permuted: "mset (without_GREASE (spec_Extensions (BuildSpecFromJA3 draw parsed))) =
      mset ?entries"
    unfolding emitted .
  have from_text: "\<forall>ids. Split CHR '','' j ! 2 = dash_text ids \<and> (\<forall>n \<in> set ids. n < 2 ^ 16) \<longrightarrow>
      Extensions parsed = map of_nat ids"
    using ParseJA3Text_extensions [OF assms(1)] by blast
  from undone ids ends permuted from_text show ?thesis
    by (simp only: simp_thms)
qed

lemma example_ja3_parses: "ParseJA3Text example_ja3 = Inr example_parsed"
  by (simp add: example_ja3_def example_parsed_def ParseJA3Text_def Let_def ParseUint_def
      is_digit_def decimal_value_def digit_val_def)

lemma example_no_GREASE: "\<forall>extID \<in> set (Extensions example_parsed). \<not> isGREASE (unat extID)"
  by (simp add: example_parsed_def isGREASE_def)

lemma rand_Shuffle_unfold:
  "rand_Shuffle draw n exts =
     (if n = 0 then exts
      else rand_Shuffle draw (n - 1) (shuffleSwap exts n (draw n mod (n + 1))))"
  by (cases n) simp_all

lemma example_entries:
  "map (table_extension example_parsed) (Extensions example_parsed) =
     [SNIExtension, ExtendedMasterSecretExtension, RenegotiationInfoExtension,
      SupportedCurvesExtension [2570, 29, 23, 24], SupportedPointsExtension [0],
      SessionTicketExtension, ALPNExtension [''h2'', ''http/1.1''],
      SignatureAlgorithmsExtension [1027, 2052, 1025, 1283, 2053, 1281, 2054, 1537],
      SupportedVersionsExtension [2570, 772, 771], PSKKeyExchangeModesExtension [1],
      KeyShareExtension [\<lparr>Group = 2570, Data = [CHR 0x00]\<rparr>, \<lparr>Group = 29, Data = []\<rparr>],
      GenericExtension 41]"
  by (simp add: table_extension_def fixed_table_def example_parsed_def)

theorem shuffled_extensions_are_table_entries_witness:
  "spec_Extensions (BuildSpecFromJA3 draw_neighbour example_parsed) =
     [UtlsGREASEExtension, GenericExtension 41,
      SNIExtension, ExtendedMasterSecretExtension, RenegotiationInfoExtension,
      SupportedCurvesExtension [2570, 29, 23, 24], SupportedPointsExtension [0],
      SessionTicketExtension, ALPNExtension [''h2'', ''http/1.1''],
      SignatureAlgorithmsExtension [1027, 2052, 1025, 1283, 2053, 1281, 2054, 1537],
      SupportedVersionsExtension [2570, 772, 771], PSKKeyExchangeModesExtension [1],
      KeyShareExtension [\<lparr>Group = 2570, Data = [CHR 0x00]\<rparr>, \<lparr>Group = 29, Data = []\<rparr>],
      UtlsGREASEExtension] \<and>
   without_GREASE
     (undo_shuffle draw_neighbour (spec_Extensions (BuildSpecFromJA3 draw_neighbour example_parsed))) =
     [SNIExtension, ExtendedMasterSecretExtension, RenegotiationInfoExtension,
      SupportedCurvesExtension [2570, 29, 23, 24], SupportedPointsExtension [0],
      SessionTicketExtension, ALPNExtension [''h2'', ''http/1.1''],
      SignatureAlgorithmsExtension [1027, 2052, 1025, 1283, 2053, 1281, 2054, 1537],
      SupportedVersionsExtension [2570, 772, 771], PSKKeyExchangeModesExtension [1],
      KeyShareExtension [\<lparr>Group = 2570, Data = [CHR 0x00]\<rparr>, \<lparr>Group = 29, Data = []\<rparr>],
      GenericExtension 41]"
proof -
  have emitted: "spec_Extensions (BuildSpecFromJA3 draw_neighbour example_parsed) =
      ShuffleChromeTLSExtensions draw_neighbour
        ([UtlsGREASEExtension] @ map (table_extension example_parsed) (Extensions example_parsed) @
         [UtlsGREASEExtension])"
    by (simp add: BuildSpecFromJA3_def Let_def mapExtensionIDs_table [OF example_no_GREASE])
  have shuffled: "spec_Extensions (BuildSpecFromJA3 draw_neighbour example_parsed) =
     [UtlsGREASEExtension, GenericExtension 41,
      SNIExtension, ExtendedMasterSecretExtension, RenegotiationInfoExtension,
      SupportedCurvesExtension [2570, 29, 23, 24], SupportedPointsExtension [0],
      SessionTicketExtension, ALPNExtension [''h2'', ''http/1.1''],
      SignatureAlgorithmsExtension [1027, 2052, 1025, 1283, 2053, 1281, 2054, 1537],
      SupportedVersionsExtension [2570, 772, 771], PSKKeyExchangeModesExtension [1],
      KeyShareExtension [\<lparr>Group = 2570, Data = [CHR 0x00]\<rparr>, \<lparr>Group = 29, Data = []\<rparr>],
      UtlsGREASEExtension]"
    unfolding emitted example_entries
    by (simp add: ShuffleChromeTLSExtensions_def rand_Shuffle_unfold shuffleSwap_def skipShuf_def
        draw_neighbour_def)
  from shuffled_extensions_are_table_entries [of example_ja3 example_parsed draw_neighbour,
      OF example_ja3_parses example_no_GREASE]
  have "without_GREASE
     (undo_shuffle draw_neighbour (spec_Extensions (BuildSpecFromJA3 draw_neighbour example_parsed))) =
     map (table_extension example_parsed) (Extensions example_parsed)"
    by (rule conjunct1)
  with shuffled show ?thesis
    by (simp only: example_entries simp_thms)
qed

text \<open>
  C2 as stated fails: the shuffle is not deterministic, and no function of the
  extension list of the ClientHello recovers the order of the JA3 list. The text
  \<open>771,4865,0-23\<close> gives one list in a call whose draws move nothing and another in a
  call that draws 1 for \<open>i = 2\<close>; the second list is also what \<open>771,4865,23-0\<close> gives in
  a call whose draws move nothing.
\<close>

theorem shuffle_hides_ja3_order_counterexample:
  "ParseJA3Text ''771,4865,0-23'' = Inr parsed_0_23 \<and>
   ParseJA3Text ''771,4865,23-0'' = Inr parsed_23_0 \<and>
   Extensions parsed_0_23 = [0, 23] \<and>
   Extensions parsed_23_0 = [23, 0] \<and>
   spec_Extensions (BuildSpecFromJA3 draw_same parsed_0_23) =
     [UtlsGREASEExtension, SNIExtension, ExtendedMasterSecretExtension, UtlsGREASEExtension] \<and>
   spec_Extensions (BuildSpecFromJA3 draw_one_swap parsed_0_23) =
     [UtlsGREASEExtension, ExtendedMasterSecretExtension, SNIExtension, UtlsGREASEExtension] \<and>
   spec_Extensions (BuildSpecFromJA3 draw_same parsed_23_0) =
     [UtlsGREASEExtension, ExtendedMasterSecretExtension, SNIExtension, UtlsGREASEExtension]"
proof -
  have "ParseJA3Text ''771,4865,0-23'' = Inr parsed_0_23"
    and "ParseJA3Text ''771,4865,23-0'' = Inr parsed_23_0"
    by (simp_all add: parsed_0_23_def parsed_23_0_def ParseJA3Text_def Let_def ParseUint_def
        is_digit_def decimal_value_def digit_val_def)
  moreover have "spec_Extensions (BuildSpecFromJA3 draw_same parsed_0_23) =
     [UtlsGREASEExtension, SNIExtension, ExtendedMasterSecretExtension, UtlsGREASEExtension]"
    and "spec_Extensions (BuildSpecFromJA3 draw_one_swap parsed_0_23) =
     [UtlsGREASEExtension, ExtendedMasterSecretExtension, SNIExtension, UtlsGREASEExtension]"
    and "spec_Extensions (BuildSpecFromJA3 draw_same parsed_23_0) =
     [UtlsGREASEExtension, ExtendedMasterSecretExtension, SNIExtension, UtlsGREASEExtension]"
    by (simp_all add: BuildSpecFromJA3_def Let_def mapExtensionIDs_def extensionCase_def
        parsed_0_23_def parsed_23_0_def ShuffleChromeTLSExtensions_def rand_Shuffle_unfold
        shuffleSwap_def skipShuf_def draw_same_def draw_one_swap_def)
  ultimately show ?thesis
    by (simp add: parsed_0_23_def parsed_23_0_def)
qed

end
